theory Spec2Isabelle
  imports Complex_Main "HOL-Library.Word"
begin

section \<open>Strings, numbers and the Unicode tables\<close>

text \<open>
  The scorer of \<^verbatim>\<open>src/TongueTwisterX.js\<close> is embedded as it is written. The file holds two
  versions of the helpers: the first (lines 25-61) normalises with \<^verbatim>\<open>normalize("NFC")\<close> and
  removes a fixed list of punctuation marks, the second (lines 267-309) normalises with
  \<^verbatim>\<open>normalize("NFKD")\<close>, removes the combining marks U+0300..U+036F and then everything that
  is not a letter, a number or white space. Both are modelled; their names carry the suffix
  \<open>_nfc\<close> and \<open>_nfkd\<close>. The function \<^verbatim>\<open>levenshtein\<close> is the same text in both.

  \<^item> A JavaScript string is a sequence of UTF-16 code units: \<^verbatim>\<open>s.length\<close> counts code units
    and \<^verbatim>\<open>s[i]\<close> is one code unit. Strings are lists of 16-bit words.
  \<^item> JavaScript numbers are modelled by natural numbers where the code counts (table cells,
    lengths, hits) and by rationals where it divides: the arithmetic of the three result fields
    is exact here, the rounding of binary floating point is not part of the model.
  \<^item> \<^verbatim>\<open>toLowerCase\<close>, \<^verbatim>\<open>normalize\<close> and the classes \<^verbatim>\<open>\p{L}\<close>, \<^verbatim>\<open>\p{N}\<close> are given by the
    Unicode tables of the engine, which are not part of the repository. They are a parameter
    \<open>U\<close> of the model; every general theorem below holds for every \<open>U\<close>. The only facts built
    into the wrappers are that both methods return the empty string on the empty string.
\<close>

type_synonym code_unit = "16 word"

type_synonym jsstring = "code_unit list"

record unicode =
  lower_case :: "jsstring \<Rightarrow> jsstring"
  nfc :: "jsstring \<Rightarrow> jsstring"
  nfkd :: "jsstring \<Rightarrow> jsstring"
  letter :: "nat \<Rightarrow> bool"
  number :: "nat \<Rightarrow> bool"

datatype form = NFC | NFKD

definition toLowerCase :: "unicode \<Rightarrow> jsstring \<Rightarrow> jsstring" where
  "toLowerCase U s = (if s = [] then [] else lower_case U s)"

definition normalize_form :: "unicode \<Rightarrow> form \<Rightarrow> jsstring \<Rightarrow>
    jsstring" where
  "normalize_form U f s = (if s = [] then [] else case f of NFC \<Rightarrow> nfc U s | NFKD
      \<Rightarrow> nfkd U s)"

text \<open>
  The code units of a list of code points (the string value of a source literal): a code
  point from U+10000 on is a surrogate pair.
\<close>

definition utf16 :: "nat \<Rightarrow> jsstring" where
  "utf16 cp =
     (if cp < 0x10000 then [of_nat cp]
      else [of_nat (0xD800 + (cp - 0x10000) div 0x400), of_nat (0xDC00 + (cp - 0x10000) mod
          0x400)])"

definition encode :: "nat list \<Rightarrow> jsstring" where
  "encode cps = concat (map utf16 cps)"

section \<open>normalizeText\<close>

text \<open>
  White space as matched by \<^verbatim>\<open>\s\<close> and removed by \<^verbatim>\<open>trim()\<close>: the ECMAScript WhiteSpace and
  LineTerminator code points.
\<close>

definition is_space :: "code_unit \<Rightarrow> bool" where
  "is_space c \<longleftrightarrow>
     c \<in> {0x09, 0x0A, 0x0B, 0x0C, 0x0D, 0x20, 0xA0, 0x1680, 0x2028, 0x2029, 0x202F, 0x205F,
         0x3000, 0xFEFF}
     \<or> (0x2000 \<le> c \<and> c \<le> 0x200A)"

text \<open>
  The character class of line 27,
  \<^verbatim>\<open>[.,!?;:()"\u201C\u201D'\u2019\-\u2014\u2026]\<close> (the source has the characters themselves),
  and the range \<^verbatim>\<open>[\u0300-\u036f]\<close> of line 271. Both regular expressions have no \<^verbatim>\<open>u\<close> flag and
  work on code units.
\<close>

definition punctuation :: "code_unit set" where
  "punctuation = {0x2E, 0x2C, 0x21, 0x3F, 0x3B, 0x3A, 0x28, 0x29, 0x22, 0x201C, 0x201D, 0x27,
      0x2019,
                  0x2D, 0x2014, 0x2026}"

definition remove_punctuation :: "jsstring \<Rightarrow> jsstring" where
  "remove_punctuation s = filter (\<lambda>c. c \<notin> punctuation) s"

definition remove_marks :: "jsstring \<Rightarrow> jsstring" where
  "remove_marks s = filter (\<lambda>c. \<not> (0x0300 \<le> c \<and> c \<le> 0x036F)) s"

text \<open>
  Line 272, \<^verbatim>\<open>replace(/[^\p{L}\p{N}\s]/gu, "")\<close>, has the \<^verbatim>\<open>u\<close> flag and works on code points: a
  high surrogate followed by a low surrogate is one code point, kept or removed as a whole; a
  surrogate on its own has general category Cs and is removed.
\<close>

definition is_high :: "code_unit \<Rightarrow> bool" where
  "is_high c \<longleftrightarrow> 0xD800 \<le> c \<and> c \<le> 0xDBFF"

definition is_low :: "code_unit \<Rightarrow> bool" where
  "is_low c \<longleftrightarrow> 0xDC00 \<le> c \<and> c \<le> 0xDFFF"

definition code_point :: "code_unit \<Rightarrow> code_unit \<Rightarrow> nat" where
  "code_point h l = 0x10000 + (unat h - 0xD800) * 0x400 + (unat l - 0xDC00)"

definition keep_point :: "unicode \<Rightarrow> nat \<Rightarrow> bool" where
  "keep_point U cp \<longleftrightarrow> letter U cp \<or> number U cp"

definition keep_unit :: "unicode \<Rightarrow> code_unit \<Rightarrow> bool" where
  "keep_unit U c \<longleftrightarrow> \<not> is_high c \<and> \<not> is_low c \<and> (letter U
      (unat c) \<or> number U (unat c) \<or> is_space c)"

fun remove_others :: "unicode \<Rightarrow> jsstring \<Rightarrow> jsstring" where
  "remove_others U [] = []"
| "remove_others U [c] = (if keep_unit U c then [c] else [])"
| "remove_others U (h # l # r) =
     (if is_high h \<and> is_low l
      then (if keep_point U (code_point h l) then h # l # remove_others U r else remove_others U
          r)
      else (if keep_unit U h then h # remove_others U (l # r) else remove_others U (l # r)))"

text \<open>
  \<^verbatim>\<open>replace(/\s+/g, " ")\<close>: every maximal run of white space becomes one U+0020.
  \<^verbatim>\<open>trim()\<close>: white space is removed at both ends.
\<close>

function collapse_spaces :: "jsstring \<Rightarrow> jsstring" where
  "collapse_spaces [] = []"
| "collapse_spaces (c # cs) =
     (if is_space c then 0x20 # collapse_spaces (dropWhile is_space cs) else c # collapse_spaces
         cs)"
  by pat_completeness auto
termination
  by (relation "measure length") (auto simp: length_dropWhile_le less_Suc_eq_le)

definition trim :: "jsstring \<Rightarrow> jsstring" where
  "trim s = rev (dropWhile is_space (rev (dropWhile is_space s)))"

text \<open>
  Lines 25-28 (\<^verbatim>\<open>if (!s) return ""\<close>, then the chain of line 27) and lines 267-275
  (\<^verbatim>\<open>(s || "")\<close>, then the chain of lines 269-274).
\<close>

definition normalizeText_nfc :: "unicode \<Rightarrow> jsstring \<Rightarrow> jsstring" where
  "normalizeText_nfc U s =
     (if s = [] then []
      else trim (collapse_spaces (remove_punctuation (normalize_form U NFC (toLowerCase U s)))))"

definition normalizeText_nfkd :: "unicode \<Rightarrow> jsstring \<Rightarrow> jsstring" where
  "normalizeText_nfkd U s =
     trim (collapse_spaces (remove_others U (remove_marks (normalize_form U NFKD (toLowerCase U
         s)))))"

section \<open>levenshtein\<close>

text \<open>
  Lines 30-42 (and 277-289): the table \<^verbatim>\<open>dp\<close> is a list of rows, each \<^verbatim>\<open>for\<close> statement is a
  fold over its index range, and \<^verbatim>\<open>dp[i][j] = v\<close> is \<open>set2\<close>. Every index they use is in
  range, so no read or write of the model is outside the table.
\<close>

definition min3 :: "nat \<Rightarrow> nat \<Rightarrow> nat \<Rightarrow> nat" where
  "min3 x y z = min x (min y z)"

definition set2 :: "nat list list \<Rightarrow> nat \<Rightarrow> nat \<Rightarrow> nat
    \<Rightarrow> nat list list" where
  "set2 dp i j v = dp[i := (dp ! i)[j := v]]"

definition lev_cell :: "jsstring \<Rightarrow> jsstring \<Rightarrow> nat \<Rightarrow> nat
    \<Rightarrow> nat list list \<Rightarrow> nat list list" where
  "lev_cell a b i j dp =
     (let cost = (if a ! (i - 1) = b ! (j - 1) then 0 else 1)
      in set2 dp i j (min3 (dp ! (i - 1) ! j + 1) (dp ! i ! (j - 1) + 1) (dp ! (i - 1) ! (j - 1)
          + cost)))"

definition levenshtein :: "jsstring \<Rightarrow> jsstring \<Rightarrow> nat" where
  "levenshtein a b =
     (let m = length a; n = length b;
          dp = replicate (m + 1) (replicate (n + 1) 0);
          dp = fold (\<lambda>i dp. set2 dp i 0 i) [0..<m + 1] dp;
          dp = fold (\<lambda>j dp. set2 dp 0 j j) [0..<n + 1] dp;
          dp = fold (\<lambda>i dp. fold (\<lambda>j dp. lev_cell a b i j dp) [1..<n + 1] dp)
              [1..<m + 1] dp
      in dp ! m ! n)"

section \<open>similarityScore\<close>

text \<open>
  \<^verbatim>\<open>B.split(" ")\<close> cuts at every single U+0020 and keeps empty pieces; \<^verbatim>\<open>new Set(...)\<close> with
  \<^verbatim>\<open>has\<close> is a set; the loop of line 56 counts the words of \<^verbatim>\<open>ba\<close> found in it.
\<close>

fun split_from :: "jsstring \<Rightarrow> jsstring \<Rightarrow> jsstring list" where
  "split_from w [] = [rev w]"
| "split_from w (c # cs) = (if c = 0x20 then rev w # split_from [] cs else split_from (c # w) cs)"

definition split_space :: "jsstring \<Rightarrow> jsstring list" where
  "split_space s = split_from [] s"

record result =
  score :: rat
  charSim :: rat
  wordSim :: rat

definition count_hits :: "jsstring set \<Rightarrow> jsstring list \<Rightarrow> nat" where
  "count_hits ta ba = fold (\<lambda>w hit. if w \<in> ta then hit + 1 else hit) ba 0"

text \<open>
  Lines 44-61 and 291-309. The two differ in the normaliser they call and in line 51, which
  tests \<^verbatim>\<open>maxLen\<close> before dividing; line 298 divides directly.
\<close>

definition similarityScore_nfc :: "unicode \<Rightarrow> jsstring \<Rightarrow> jsstring
    \<Rightarrow> result" where
  "similarityScore_nfc U target said =
     (let A = normalizeText_nfc U target; B = normalizeText_nfc U said in
      if A = [] \<or> B = [] then \<lparr>score = 0, charSim = 0, wordSim = 0\<rparr>
      else
        let dist = levenshtein A B;
            maxLen = max (length A) (length B);
            cs = (if maxLen \<noteq> 0 then 1 - of_nat dist / of_nat maxLen else 0);
            ta = set (split_space A);
            ba = split_space B;
            hit = count_hits ta ba;
            ws = (if length ba \<noteq> 0 then of_nat hit / of_nat (length ba) else 0);
            sc = max 0 (min 1 (7 / 10 * cs + 3 / 10 * ws))
        in \<lparr>score = sc, charSim = cs, wordSim = ws\<rparr>)"

definition similarityScore_nfkd :: "unicode \<Rightarrow> jsstring \<Rightarrow> jsstring
    \<Rightarrow> result" where
  "similarityScore_nfkd U target said =
     (let A = normalizeText_nfkd U target; B = normalizeText_nfkd U said in
      if A = [] \<or> B = [] then \<lparr>score = 0, charSim = 0, wordSim = 0\<rparr>
      else
        let dist = levenshtein A B;
            maxLen = max (length A) (length B);
            cs = 1 - of_nat dist / of_nat maxLen;
            ta = set (split_space A);
            ba = split_space B;
            hit = count_hits ta ba;
            ws = (if length ba \<noteq> 0 then of_nat hit / of_nat (length ba) else 0);
            sc = max 0 (min 1 (7 / 10 * cs + 3 / 10 * ws))
        in \<lparr>score = sc, charSim = cs, wordSim = ws\<rparr>)"

section \<open>The component\<close>

text \<open>
  The catalogue of lines 10-22. The file \<^verbatim>\<open>unnamed/part_000\<close> has the same list with another text
  for the last entry.
\<close>

record twister =
  tw_id :: string
  language :: string
  tw_locale :: string
  flag :: jsstring
  tw_text :: jsstring
  audio :: "string option"

definition twister_es_001 :: twister where
  "twister_es_001 =
    \<lparr>tw_id = ''es-001'', language = ''Spanish'', tw_locale = ''es-ES'',
     flag = [0xD83C, 0xDDEA, 0xD83C, 0xDDF8],
     tw_text =
       [0x54, 0x72, 0x65, 0x73, 0x20, 0x74, 0x72, 0x69, 0x73, 0x74, 0x65, 0x73, 0x20, 0x74, 0x69,
        0x67, 0x72, 0x65, 0x73, 0x20, 0x74, 0x72, 0x61, 0x67, 0x61, 0x62, 0x61, 0x6E, 0x20, 0x74,
        0x72, 0x69, 0x67, 0x6F, 0x20, 0x65, 0x6E, 0x20, 0x75, 0x6E, 0x20, 0x74, 0x72, 0x69, 0x67,
        0x61, 0x6C, 0x2E],
     audio = None\<rparr>"

definition twister_en_001 :: twister where
  "twister_en_001 =
    \<lparr>tw_id = ''en-001'', language = ''English'', tw_locale = ''en-US'',
     flag = [0xD83C, 0xDDFA, 0xD83C, 0xDDF8],
     tw_text =
       [0x53, 0x68, 0x65, 0x20, 0x73, 0x65, 0x6C, 0x6C, 0x73, 0x20, 0x73, 0x65, 0x61, 0x73, 0x68,
        0x65, 0x6C, 0x6C, 0x73, 0x20, 0x62, 0x79, 0x20, 0x74, 0x68, 0x65, 0x20, 0x73, 0x65, 0x61,
        0x73, 0x68, 0x6F, 0x72, 0x65, 0x2E],
     audio = None\<rparr>"

definition twister_fr_001 :: twister where
  "twister_fr_001 =
    \<lparr>tw_id = ''fr-001'', language = ''French'', tw_locale = ''fr-FR'',
     flag = [0xD83C, 0xDDEB, 0xD83C, 0xDDF7],
     tw_text =
       [0x55, 0x6E, 0x20, 0x63, 0x68, 0x61, 0x73, 0x73, 0x65, 0x75, 0x72, 0x20, 0x73, 0x61, 0x63,
        0x68, 0x61, 0x6E, 0x74, 0x20, 0x63, 0x68, 0x61, 0x73, 0x73, 0x65, 0x72, 0x20, 0x73, 0x61,
        0x69, 0x74, 0x20, 0x63, 0x68, 0x61, 0x73, 0x73, 0x65, 0x72, 0x20, 0x73, 0x61, 0x6E, 0x73,
        0x20, 0x73, 0x6F, 0x6E, 0x20, 0x63, 0x68, 0x69, 0x65, 0x6E, 0x2E],
     audio = None\<rparr>"

definition twister_hi_001 :: twister where
  "twister_hi_001 =
    \<lparr>tw_id = ''hi-001'', language = ''Hindi'', tw_locale = ''hi-IN'',
     flag = [0xD83C, 0xDDEE, 0xD83C, 0xDDF3],
     tw_text =
       [0x0915, 0x091A, 0x094D, 0x091A, 0x093E, 0x20, 0x092A, 0x093E, 0x092A, 0x0921, 0x093C,
        0x093E, 0x20, 0x092A, 0x0915, 0x093E, 0x20, 0x092A, 0x093E, 0x092A, 0x0921, 0x093C,
        0x093E, 0x0964],
     audio = None\<rparr>"

definition twister_zh_001 :: twister where
  "twister_zh_001 =
    \<lparr>tw_id = ''zh-001'', language = ''Mandarin'', tw_locale = ''zh-CN'',
     flag = [0xD83C, 0xDDE8, 0xD83C, 0xDDF3],
     tw_text =
       [0x56DB, 0x662F, 0x56DB, 0xFF0C, 0x5341, 0x662F, 0x5341, 0xFF0C, 0x5341, 0x56DB, 0x662F,
        0x5341, 0x56DB, 0xFF0C, 0x56DB, 0x5341, 0x662F, 0x56DB, 0x5341, 0x3002],
     audio = Some ''/audio/zh-001.mp3''\<rparr>"

definition twister_it_001 :: twister where
  "twister_it_001 =
    \<lparr>tw_id = ''it-001'', language = ''Italian'', tw_locale = ''it-IT'',
     flag = [0xD83C, 0xDDEE, 0xD83C, 0xDDF9],
     tw_text =
       [0x54, 0x72, 0x65, 0x6E, 0x74, 0x61, 0x74, 0x72, 0xE9, 0x20, 0x74, 0x72, 0x65, 0x6E, 0x74,
        0x69, 0x6E, 0x69, 0x20, 0x65, 0x6E, 0x74, 0x72, 0x61, 0x72, 0x6F, 0x6E, 0x6F, 0x20, 0x61,
        0x20, 0x54, 0x72, 0x65, 0x6E, 0x74, 0x6F, 0x2C, 0x20, 0x74, 0x75, 0x74, 0x74, 0x69, 0x20,
        0x65, 0x20, 0x74, 0x72, 0x65, 0x6E, 0x74, 0x61, 0x74, 0x72, 0xE9, 0x20, 0x74, 0x72, 0x6F,
        0x74, 0x74, 0x65, 0x72, 0x65, 0x6C, 0x6C, 0x61, 0x6E, 0x64, 0x6F, 0x2E],
     audio = None\<rparr>"

definition twister_nl_001 :: twister where
  "twister_nl_001 =
    \<lparr>tw_id = ''nl-001'', language = ''Dutch'', tw_locale = ''nl-NL'',
     flag = [0xD83C, 0xDDF3, 0xD83C, 0xDDF1],
     tw_text =
       [0x44, 0x65, 0x20, 0x6B, 0x61, 0x74, 0x20, 0x6B, 0x72, 0x61, 0x62, 0x74, 0x20, 0x64, 0x65,
        0x20, 0x6B, 0x72, 0x75, 0x6C, 0x6C, 0x65, 0x6E, 0x20, 0x76, 0x61, 0x6E, 0x20, 0x64, 0x65,
        0x20, 0x74, 0x72, 0x61, 0x70, 0x2E],
     audio = None\<rparr>"

definition twister_de_001 :: twister where
  "twister_de_001 =
    \<lparr>tw_id = ''de-001'', language = ''German'', tw_locale = ''de-DE'',
     flag = [0xD83C, 0xDDE9, 0xD83C, 0xDDEA],
     tw_text =
       [0x46, 0x69, 0x73, 0x63, 0x68, 0x65, 0x72, 0x73, 0x20, 0x46, 0x72, 0x69, 0x74, 0x7A, 0x20,
        0x66, 0x69, 0x73, 0x63, 0x68, 0x74, 0x20, 0x66, 0x72, 0x69, 0x73, 0x63, 0x68, 0x65, 0x20,
        0x46, 0x69, 0x73, 0x63, 0x68, 0x65, 0x2C, 0x20, 0x66, 0x72, 0x69, 0x73, 0x63, 0x68, 0x65,
        0x20, 0x46, 0x69, 0x73, 0x63, 0x68, 0x65, 0x20, 0x66, 0x69, 0x73, 0x63, 0x68, 0x74, 0x20,
        0x46, 0x69, 0x73, 0x63, 0x68, 0x65, 0x72, 0x73, 0x20, 0x46, 0x72, 0x69, 0x74, 0x7A, 0x2E],
     audio = None\<rparr>"

definition twister_pt_001 :: twister where
  "twister_pt_001 =
    \<lparr>tw_id = ''pt-001'', language = ''Portuguese'', tw_locale = ''pt-PT'',
     flag = [0xD83C, 0xDDF5, 0xD83C, 0xDDF9],
     tw_text =
       [0x4F, 0x20, 0x72, 0x61, 0x74, 0x6F, 0x20, 0x72, 0x6F, 0x65, 0x75, 0x20, 0x61, 0x20, 0x72,
        0x6F, 0x75, 0x70, 0x61, 0x20, 0x64, 0x6F, 0x20, 0x72, 0x65, 0x69, 0x20, 0x64, 0x65, 0x20,
        0x52, 0x6F, 0x6D, 0x61, 0x2E],
     audio = None\<rparr>"

definition twister_fi_001 :: twister where
  "twister_fi_001 =
    \<lparr>tw_id = ''fi-001'', language = ''Finnish'', tw_locale = ''fi-FI'',
     flag = [0xD83C, 0xDDEB, 0xD83C, 0xDDEE],
     tw_text =
       [0x56, 0x65, 0x73, 0x69, 0x68, 0x69, 0x69, 0x73, 0x69, 0x20, 0x73, 0x69, 0x68, 0x69, 0x73,
        0x69, 0x20, 0x68, 0x69, 0x73, 0x73, 0x69, 0x73, 0x73, 0xE4, 0x2E],
     audio = None\<rparr>"

definition twister_pl_001 :: twister where
  "twister_pl_001 =
    \<lparr>tw_id = ''pl-001'', language = ''Polish'', tw_locale = ''pl-PL'',
     flag = [0xD83C, 0xDDF5, 0xD83C, 0xDDF1],
     tw_text =
       [0x43, 0x68, 0x72, 0x7A, 0x0105, 0x73, 0x7A, 0x63, 0x7A, 0x20, 0x62, 0x72, 0x7A, 0x6D,
        0x69, 0x20, 0x77, 0x20, 0x74, 0x72, 0x7A, 0x63, 0x69, 0x6E, 0x69, 0x65, 0x20, 0x77, 0x20,
        0x53, 0x7A, 0x63, 0x7A, 0x65, 0x62, 0x72, 0x7A, 0x65, 0x73, 0x7A, 0x79, 0x6E, 0x69, 0x65,
        0x2E],
     audio = None\<rparr>"

definition twister_pl_001_alt :: twister where
  "twister_pl_001_alt =
    \<lparr>tw_id = ''pl-001'', language = ''Polish'', tw_locale = ''pl-PL'',
     flag = [0xD83C, 0xDDF5, 0xD83C, 0xDDF1],
     tw_text =
       [0x53, 0x74, 0xF3, 0x0142, 0x20, 0x7A, 0x20, 0x70, 0x6F, 0x77, 0x79, 0x0142, 0x61, 0x6D,
        0x79, 0x77, 0x61, 0x6E, 0x79, 0x6D, 0x69, 0x20, 0x6E, 0x6F, 0x67, 0x61, 0x6D, 0x69, 0x2E],
     audio = None\<rparr>"

definition SAMPLE_TWISTERS :: "twister list" where
  "SAMPLE_TWISTERS =
     [twister_es_001, twister_en_001, twister_fr_001, twister_hi_001, twister_zh_001,
         twister_it_001,
      twister_nl_001, twister_de_001, twister_pt_001, twister_fi_001, twister_pl_001]"

definition SAMPLE_TWISTERS_alt :: "twister list" where
  "SAMPLE_TWISTERS_alt =
     [twister_es_001, twister_en_001, twister_fr_001, twister_hi_001, twister_zh_001,
         twister_it_001,
      twister_nl_001, twister_de_001, twister_pt_001, twister_fi_001, twister_pl_001_alt]"

text \<open>
  The state of the component \<^verbatim>\<open>TongueTwisterX\<close>: the values held by \<^verbatim>\<open>useState\<close>, whether a
  recognition object exists (\<^verbatim>\<open>recognitionRef.current\<close> is not null), and the recognition session
  that has been started and has not ended, with the twister and the attempt number its
  \<^verbatim>\<open>onresult\<close> handler closed over. The same record serves both versions of the component: the
  first (lines 64-254) derives \<^verbatim>\<open>currentTwister\<close> from \<^verbatim>\<open>twisterIndex\<close>, the version of
  \<^verbatim>\<open>unnamed/part_000\<close> holds both as state and has no \<^verbatim>\<open>statusMessage\<close> and no \<^verbatim>\<open>maxAttempts\<close>
  (it compares with the literal 6).
\<close>

record entry =
  e_attempt :: nat
  e_transcript :: jsstring
  e_score :: int
  e_charSim :: int
  e_wordSim :: int

record captured =
  c_twister :: twister
  c_attempt :: nat

record app =
  twisterIndex :: nat
  currentTwister :: twister
  attempt :: nat
  scores :: "entry list"
  recording :: bool
  statusMessage :: string
  permissionError :: string
  maxAttempts :: nat
  supported :: bool
  active :: "captured option"

text \<open>
  What can happen to the component: a click on one of its buttons, or an event of the
  recognition object. A call of \<^verbatim>\<open>start()\<close> either starts a session or throws.
\<close>

datatype start_outcome = Started | Threw

datatype event =
    ClickStart start_outcome
  | ClickToggle start_outcome
  | ClickHear
  | ClickNew
  | ClickRefresh
  | Result jsstring
  | Error string
  | End bool
  | Timeout bool
  | Abort

text \<open>
  \<^verbatim>\<open>Math.round(x * 100)\<close> rounds half up. An entry of \<^verbatim>\<open>scores\<close> is built in line 100.
\<close>

definition js_round :: "rat \<Rightarrow> int" where
  "js_round x = \<lfloor>x + 1 / 2\<rfloor>"

definition make_entry :: "nat \<Rightarrow> jsstring \<Rightarrow> result \<Rightarrow> entry"
    where
  "make_entry n transcript r =
     \<lparr>e_attempt = n, e_transcript = transcript, e_score = js_round (score r * 100),
      e_charSim = js_round (charSim r * 100), e_wordSim = js_round (wordSim r * 100)\<rparr>"

subsection \<open>First version: lines 64-254\<close>

text \<open>
  The state after the first render and its effect (lines 80-88). The handlers follow the
  source line by line; state updates of one handler are applied together.
\<close>

definition init_app :: "bool \<Rightarrow> app" where
  "init_app avail =
     \<lparr>twisterIndex = 0, currentTwister = SAMPLE_TWISTERS ! 0, attempt = 0, scores = [],
      recording = False, statusMessage = [],
      permissionError = (if avail then [] else ''SpeechRecognition not supported.''),
      maxAttempts = 6, supported = avail, active = None\<rparr>"

definition abort :: "app \<Rightarrow> app" where
  "abort s = s\<lparr>active := None\<rparr>"

definition onresult :: "unicode \<Rightarrow> captured \<Rightarrow> jsstring \<Rightarrow> app
    \<Rightarrow> app" where
  "onresult U c transcript s =
     (let r = similarityScore_nfc U (tw_text (c_twister c)) transcript in
      s\<lparr>scores := scores s @ [make_entry (c_attempt c + 1) transcript r],
        attempt := attempt s + 1,
        recording := False,
        statusMessage := []\<rparr>)"

definition onerror :: "string \<Rightarrow> app \<Rightarrow> app" where
  "onerror e s =
     (let s = (if e = ''not-allowed'' \<or> e = ''service-not-allowed''
               then s\<lparr>permissionError := ''Microphone permission denied.''\<rparr>
               else if e = ''no-speech'' then s\<lparr>statusMessage := ''No speech detected.''\<rparr>
               else if e = ''network''
               then s\<lparr>statusMessage := ''Network issue with recognition service.''\<rparr>
               else if e \<noteq> ''aborted''
               then s\<lparr>statusMessage := ''Speech recognition error: '' @ e\<rparr>
               else s)
      in s\<lparr>recording := False\<rparr>)"

definition onend :: "bool \<Rightarrow> app \<Rightarrow> app" where
  "onend rec s =
     (if rec then s\<lparr>recording := False, statusMessage := ''Listening stopped.''\<rparr> else s)"

definition ontimeout :: "bool \<Rightarrow> app \<Rightarrow> app" where
  "ontimeout rec s =
     (if rec then (abort s)\<lparr>recording := False, statusMessage := ''Timed out. Please try again.''\<rparr>
      else s)"

definition startRecording :: "start_outcome \<Rightarrow> app \<Rightarrow> app" where
  "startRecording out s =
     (if \<not> supported s then s\<lparr>permissionError := ''SpeechRecognition not available.''\<rparr>
      else case out of
        Started \<Rightarrow>
          s\<lparr>recording := True, permissionError := [], statusMessage := ''Listening...'',
            active := Some \<lparr>c_twister = currentTwister s, c_attempt = attempt
                s\<rparr>\<rparr>
      | Threw \<Rightarrow>
          s\<lparr>permissionError := ''Mic access failed.'', recording := False, statusMessage := []\<rparr>)"

definition toggleRecording :: "start_outcome \<Rightarrow> app \<Rightarrow> app" where
  "toggleRecording out s =
     (if recording s
      then (abort s)\<lparr>recording := False, statusMessage := ''Stopped listening.''\<rparr>
      else startRecording out s)"

definition playAudio :: "app \<Rightarrow> app" where
  "playAudio s = s"

definition newTwister :: "app \<Rightarrow> app" where
  "newTwister s =
     (let nextIndex = (twisterIndex s + 1) mod length SAMPLE_TWISTERS in
      s\<lparr>twisterIndex := nextIndex, currentTwister := SAMPLE_TWISTERS ! nextIndex,
        attempt := 0, scores := [], permissionError := [], statusMessage := []\<rparr>)"

definition refreshTwister :: "app \<Rightarrow> app" where
  "refreshTwister s =
     (abort s)\<lparr>recording := False, statusMessage := [], attempt := 0, scores := [],
               permissionError := []\<rparr>"

text \<open>
  Modelled from the spec: the speech recognition service of the browser, which is no code of
  the repository. Section 5 of the specification: the completion callback runs after the
  service reports a final transcript, "only one recognition session may be active at a time;
  starting a new one while one is active is an error, not a queued operation". With
  \<^verbatim>\<open>continuous = false\<close> and \<^verbatim>\<open>interimResults = false\<close> (lines 93-94) a session delivers one final
  transcript and is over. Hence \<^verbatim>\<open>start()\<close> starts a session only when none is active, and a
  result needs an active session, which it ends. (In this version the clean-up of the effect,
  line 126, aborts the recognition object whenever \<^verbatim>\<open>recording\<close>, \<^verbatim>\<open>attempt\<close> or the twister
  changes, so no session outlives the handler that follows its start; the model does not rely
  on it and lets a session live until a result, an error or an abort.)
\<close>

definition start_possible :: "start_outcome \<Rightarrow> app \<Rightarrow> bool" where
  "start_possible out s \<longleftrightarrow> (case out of Started \<Rightarrow> active s = None
      | Threw \<Rightarrow> True)"

text \<open>
  When an event can happen. A button can be clicked when the JSX of lines 215-251 renders it
  and does not disable it. The other events of a recognition object (an error, the end of a
  session, the timer of line 138, an abort by the clean-up of the effect in line 126 or by the
  browser) are allowed whenever a recognition object exists, with any value for the
  \<^verbatim>\<open>recording\<close> that their handler closed over. These are more schedules than a browser
  produces, and the invariant is proved for all of them.
\<close>

fun enabled :: "app \<Rightarrow> event \<Rightarrow> bool" where
  "enabled s (ClickStart out) \<longleftrightarrow> attempt s = 0 \<and> \<not> recording s
      \<and> start_possible out s"
| "enabled s (ClickToggle out) \<longleftrightarrow>
     0 < attempt s \<and> attempt s < maxAttempts s \<and> start_possible out s"
| "enabled s ClickHear \<longleftrightarrow> 0 < attempt s \<and> attempt s < maxAttempts s"
| "enabled s ClickNew \<longleftrightarrow>
     (0 < attempt s \<and> attempt s < maxAttempts s) \<or> maxAttempts s \<le> attempt s"
| "enabled s ClickRefresh \<longleftrightarrow> 0 < attempt s \<and> attempt s < maxAttempts s"
| "enabled s (Result t) \<longleftrightarrow> active s \<noteq> None"
| "enabled s (Error e) \<longleftrightarrow> supported s"
| "enabled s (End rec) \<longleftrightarrow> supported s"
| "enabled s (Timeout rec) \<longleftrightarrow> supported s"
| "enabled s Abort \<longleftrightarrow> supported s"

fun handle :: "unicode \<Rightarrow> event \<Rightarrow> app \<Rightarrow> app" where
  "handle U (ClickStart out) s = startRecording out s"
| "handle U (ClickToggle out) s = toggleRecording out s"
| "handle U ClickHear s = playAudio s"
| "handle U ClickNew s = newTwister s"
| "handle U ClickRefresh s = refreshTwister s"
| "handle U (Result t) s =
     (case active s of None \<Rightarrow> s | Some c \<Rightarrow> (onresult U c t
         s)\<lparr>active := None\<rparr>)"
| "handle U (Error e) s = (onerror e s)\<lparr>active := None\<rparr>"
| "handle U (End rec) s = onend rec s"
| "handle U (Timeout rec) s = ontimeout rec s"
| "handle U Abort s = abort s"

fun run :: "unicode \<Rightarrow> event list \<Rightarrow> app \<Rightarrow> app option" where
  "run U [] s = Some s"
| "run U (e # es) s = (if enabled s e then run U es (handle U e s) else None)"

subsection \<open>The version of unnamed/part_000: lines 20-142\<close>

text \<open>
  This file keeps \<^verbatim>\<open>similarityScore\<close> "as before" without its text: the scoring function is the
  parameter \<open>sim\<close>. Both buttons that start a recording are disabled while \<^verbatim>\<open>recording\<close> is
  true (lines 108 and 117), and every handler that resets \<^verbatim>\<open>recording\<close> belongs to an event that
  ends the session. So this version never calls \<^verbatim>\<open>start()\<close> while a session is active (lemma
  \<open>start_never_while_active_alt\<close> below), and its model needs no assumption about such a call:
  only that a session delivers one final transcript and is over.
\<close>

definition init_app_alt :: "bool \<Rightarrow> app" where
  "init_app_alt avail =
     \<lparr>twisterIndex = 0, currentTwister = SAMPLE_TWISTERS_alt ! 0, attempt = 0, scores = [],
      recording = False, statusMessage = [],
      permissionError =
        (if avail then []
         else ''SpeechRecognition not supported. Only scoring by text match available.''),
      maxAttempts = 6, supported = avail, active = None\<rparr>"

definition onresult_alt :: "(jsstring \<Rightarrow> jsstring \<Rightarrow> result) \<Rightarrow>
    captured \<Rightarrow> jsstring \<Rightarrow> app \<Rightarrow> app" where
  "onresult_alt sim c transcript s =
     (let r = sim (tw_text (c_twister c)) transcript in
      s\<lparr>scores := scores s @ [make_entry (c_attempt c + 1) transcript r],
        attempt := attempt s + 1,
        recording := False\<rparr>)"

definition onerror_alt :: "string \<Rightarrow> app \<Rightarrow> app" where
  "onerror_alt e s =
     (let s = (if e = ''not-allowed'' \<or> e = ''service-not-allowed''
               then s\<lparr>permissionError :=
                 ''Microphone permission denied. Please allow mic access in your browser settings.''\<rparr>
               else s\<lparr>permissionError := ''Speech recognition error: '' @ e\<rparr>)
      in s\<lparr>recording := False\<rparr>)"

definition startRecording_alt :: "start_outcome \<Rightarrow> app \<Rightarrow> app" where
  "startRecording_alt out s =
     (if \<not> supported s
      then s\<lparr>permissionError := ''SpeechRecognition not available in this browser.''\<rparr>
      else case out of
        Started \<Rightarrow>
          s\<lparr>recording := True, permissionError := [],
            active := Some \<lparr>c_twister = currentTwister s, c_attempt = attempt
                s\<rparr>\<rparr>
      | Threw \<Rightarrow>
          s\<lparr>permissionError :=
              ''Mic access failed. Ensure you're on HTTPS and allow microphone permissions.'',
            recording := False\<rparr>)"

definition newTwister_alt :: "app \<Rightarrow> app" where
  "newTwister_alt s =
     (let nextIndex = (twisterIndex s + 1) mod length SAMPLE_TWISTERS_alt in
      s\<lparr>twisterIndex := nextIndex, currentTwister := SAMPLE_TWISTERS_alt ! nextIndex,
        attempt := 0, scores := [], permissionError := []\<rparr>)"

fun enabled_alt :: "app \<Rightarrow> event \<Rightarrow> bool" where
  "enabled_alt s (ClickStart out) \<longleftrightarrow>
     (attempt s = 0 \<or> (0 < attempt s \<and> attempt s < 6)) \<and> \<not> recording s"
| "enabled_alt s ClickHear \<longleftrightarrow> 0 < attempt s \<and> attempt s < 6"
| "enabled_alt s ClickNew \<longleftrightarrow> (0 < attempt s \<and> attempt s < 6) \<or> 6
    \<le> attempt s"
| "enabled_alt s (Result t) \<longleftrightarrow> active s \<noteq> None"
| "enabled_alt s (Error e) \<longleftrightarrow> supported s"
| "enabled_alt s Abort \<longleftrightarrow> supported s"
| "enabled_alt s _ \<longleftrightarrow> False"

fun handle_alt :: "(jsstring \<Rightarrow> jsstring \<Rightarrow> result) \<Rightarrow> event
    \<Rightarrow> app \<Rightarrow> app" where
  "handle_alt sim (ClickStart out) s = startRecording_alt out s"
| "handle_alt sim ClickHear s = playAudio s"
| "handle_alt sim ClickNew s = newTwister_alt s"
| "handle_alt sim (Result t) s =
     (case active s of None \<Rightarrow> s | Some c \<Rightarrow> (onresult_alt sim c t
         s)\<lparr>active := None\<rparr>)"
| "handle_alt sim (Error e) s = (onerror_alt e s)\<lparr>active := None\<rparr>"
| "handle_alt sim Abort s = abort s"
| "handle_alt sim _ s = s"

fun run_alt :: "(jsstring \<Rightarrow> jsstring \<Rightarrow> result) \<Rightarrow> event list
    \<Rightarrow> app \<Rightarrow> app option" where
  "run_alt sim [] s = Some s"
| "run_alt sim (e # es) s = (if enabled_alt s e then run_alt sim es (handle_alt sim e s) else
    None)"

section \<open>A sample of the Unicode tables\<close>

text \<open>
  Concrete inputs need concrete tables. \<open>ucd\<close> lists the entries of the Unicode Character
  Database that the evaluated examples touch: the lower-case mapping and the general
  categories L and N of U+0000..U+00FF, the canonical decompositions of U+00E1 and U+00E9 with
  their compositions, and the compatibility decomposition of U+2122 (TRADE MARK SIGN) into
  U+0054 U+004D. On the strings evaluated below it agrees with the tables of the engine;
  elsewhere it is no model of Unicode.
\<close>

definition lower_unit :: "code_unit \<Rightarrow> code_unit" where
  "lower_unit c =
     (if (0x41 \<le> c \<and> c \<le> 0x5A) \<or> (0xC0 \<le> c \<and> c \<le> 0xDE \<and> c
         \<noteq> 0xD7) then c + 0x20 else c)"

definition decompose_unit :: "code_unit \<Rightarrow> jsstring" where
  "decompose_unit c =
     (if c = 0xE1 then [0x61, 0x0301]
      else if c = 0xE9 then [0x65, 0x0301]
      else [c])"

definition compat_unit :: "code_unit \<Rightarrow> jsstring" where
  "compat_unit c = (if c = 0x2122 then [0x54, 0x4D] else decompose_unit c)"

fun compose_units :: "jsstring \<Rightarrow> jsstring" where
  "compose_units (b # m # r) =
     (if b = 0x61 \<and> m = 0x0301 then 0xE1 # compose_units r
      else if b = 0x65 \<and> m = 0x0301 then 0xE9 # compose_units r
      else b # compose_units (m # r))"
| "compose_units s = s"

definition ucd :: unicode where
  "ucd = \<lparr>lower_case = map lower_unit,
          nfc = (\<lambda>s. compose_units (concat (map decompose_unit s))),
          nfkd = (\<lambda>s. concat (map compat_unit s)),
          letter = (\<lambda>cp. (0x41 \<le> cp \<and> cp \<le> 0x5A) \<or> (0x61 \<le> cp \<and>
              cp \<le> 0x7A)
                          \<or> cp = 0xAA \<or> cp = 0xB5 \<or> cp = 0xBA
                          \<or> (0xC0 \<le> cp \<and> cp \<le> 0xFF \<and> cp \<noteq> 0xD7
                              \<and> cp \<noteq> 0xF7)),
          number = (\<lambda>cp. (0x30 \<le> cp \<and> cp \<le> 0x39) \<or> cp = 0xB2 \<or> cp =
              0xB3 \<or> cp = 0xB9
                          \<or> (0xBC \<le> cp \<and> cp \<le> 0xBE))\<rparr>"

section \<open>The edit distance that levenshtein is compared with\<close>

text \<open>
  The recurrence of the dynamic programme as a recursive function on the two lists, and the
  distance as the specification words it: the least number of single-element edits (insert,
  delete, substitute, each of cost one, at any position) that turn one sequence into the other.
\<close>

fun ed :: "'a list \<Rightarrow> 'a list \<Rightarrow> nat" where
  "ed [] ys = length ys"
| "ed xs [] = length xs"
| "ed (x # xs) (y # ys) =
     min3 (ed xs (y # ys) + 1) (ed (x # xs) ys + 1) (ed xs ys + (if x = y then 0 else 1))"

inductive edit1 :: "'a list \<Rightarrow> 'a list \<Rightarrow> bool" where
  add: "edit1 xs (y # xs)"
| drop: "edit1 (x # xs) xs"
| replace: "edit1 (x # xs) (y # xs)"
| later: "edit1 xs ys \<Longrightarrow> edit1 (z # xs) (z # ys)"

definition edit_distance :: "'a list \<Rightarrow> 'a list \<Rightarrow> nat" where
  "edit_distance xs ys = (LEAST n. (edit1 ^^ n) xs ys)"

section \<open>Definitions used in the proofs\<close>

text \<open>
  The shape of the table and the cells already filled when the iteration reaches cell
  \<open>(i, j)\<close>.
\<close>

definition wf_dp :: "nat \<Rightarrow> nat \<Rightarrow> nat list list \<Rightarrow> bool" where
  "wf_dp m n dp \<longleftrightarrow> length dp = m + 1 \<and> (\<forall>i\<le>m. length (dp ! i)
      = n + 1)"

definition prefix_ed :: "jsstring \<Rightarrow> jsstring \<Rightarrow> nat \<Rightarrow> nat
    \<Rightarrow> nat" where
  "prefix_ed a b i j = ed (rev (take i a)) (rev (take j b))"

definition dp_upto :: "jsstring \<Rightarrow> jsstring \<Rightarrow> nat \<Rightarrow> nat
    \<Rightarrow> nat list list \<Rightarrow> bool" where
  "dp_upto a b i j dp \<longleftrightarrow>
     wf_dp (length a) (length b) dp \<and>
     (\<forall>i' j'. i' \<le> length a \<and> j' \<le> length b \<and> (i' < i \<or> j' = 0
         \<or> (i' = i \<and> j' < j))
        \<longrightarrow> dp ! i' ! j' = prefix_ed a b i' j')"

text \<open>The record both versions of \<^verbatim>\<open>similarityScore\<close> return after their guard.\<close>

definition score_core :: "jsstring \<Rightarrow> jsstring \<Rightarrow> result" where
  "score_core A B =
     \<lparr>score = max 0 (min 1 (7 / 10 * (1 - of_nat (levenshtein A B) / of_nat (max (length
         A) (length B)))
                 + 3 / 10 * (of_nat (count_hits (set (split_space A)) (split_space B)) / of_nat
                     (length (split_space B))))),
      charSim = 1 - of_nat (levenshtein A B) / of_nat (max (length A) (length B)),
      wordSim = of_nat (count_hits (set (split_space A)) (split_space B)) / of_nat (length
          (split_space B))\<rparr>"

text \<open>
  Strings as \<open>collapse_spaces\<close> and \<open>remove_others\<close> leave them.
\<close>

fun collapsed :: "jsstring \<Rightarrow> bool" where
  "collapsed [] = True"
| "collapsed [c] = (is_space c \<longrightarrow> c = 0x20)"
| "collapsed (c # d # r) = ((is_space c \<longrightarrow> c = 0x20 \<and> \<not> is_space d)
    \<and> collapsed (d # r))"

fun kept :: "unicode \<Rightarrow> jsstring \<Rightarrow> bool" where
  "kept U [] = True"
| "kept U [c] = keep_unit U c"
| "kept U (h # l # r) =
     (if is_high h \<and> is_low l then keep_point U (code_point h l) \<and> kept U r
      else keep_unit U h \<and> kept U (l # r))"

text \<open>
  The invariant of the component (for the version of \<^verbatim>\<open>unnamed/part_000\<close> with the fact that a
  session is active only while \<^verbatim>\<open>recording\<close> is true), the events that are no click and record
  nothing, and two schedules that record six attempts.
\<close>

definition capped :: "app \<Rightarrow> bool" where
  "capped s \<longleftrightarrow>
     attempt s \<le> 6 \<and> length (scores s) = attempt s \<and> maxAttempts s = 6 \<and>
     (active s = None \<or> attempt s < 6)"

definition capped_alt :: "app \<Rightarrow> bool" where
  "capped_alt s \<longleftrightarrow> capped s \<and> (active s = None \<or> recording s)"

fun background :: "event \<Rightarrow> bool" where
  "background (Error e) = True"
| "background (End rec) = True"
| "background (Timeout rec) = True"
| "background Abort = True"
| "background _ = False"

definition six_attempts :: "event list" where
  "six_attempts =
     [ClickStart Started, Result [0x68, 0x69],
      ClickToggle Started, Result [0x68, 0x69],
      ClickToggle Started, Result [0x68, 0x69],
      ClickToggle Started, Result [0x68, 0x69],
      ClickToggle Started, Result [0x68, 0x69],
      ClickToggle Started, Result [0x68, 0x69]]"

definition six_attempts_alt :: "event list" where
  "six_attempts_alt =
     [ClickStart Started, Result [0x68, 0x69],
      ClickStart Started, Result [0x68, 0x69],
      ClickStart Started, Result [0x68, 0x69],
      ClickStart Started, Result [0x68, 0x69],
      ClickStart Started, Result [0x68, 0x69],
      ClickStart Started, Result [0x68, 0x69]]"

section \<open>The table holds the recurrence\<close>

lemma wf_dp_set2: "wf_dp m n dp \<Longrightarrow> wf_dp m n (set2 dp i j v)"
  by (cases "i \<le> m") (auto simp: wf_dp_def set2_def nth_list_update)

lemma nth_set2:
  "wf_dp m n dp \<Longrightarrow> i \<le> m \<Longrightarrow> j \<le> n \<Longrightarrow> i'
      \<le> m \<Longrightarrow>
   set2 dp i j v ! i' ! j' = (if i' = i \<and> j' = j then v else dp ! i' ! j')"
  by (auto simp: wf_dp_def set2_def nth_list_update)

lemma fold_upt_invariant:
  assumes "P lo s" and "lo \<le> hi"
    and "\<And>i s. lo \<le> i \<Longrightarrow> i < hi \<Longrightarrow> P i s \<Longrightarrow>
        P (Suc i) (f i s)"
  shows "P hi (fold f [lo..<hi] s)"
  using assms(2,3)
proof (induction hi)
  case 0
  with assms(1) show ?case by simp
next
  case (Suc hi)
  show ?case
  proof (cases "lo = Suc hi")
    case True
    with assms(1) show ?thesis by simp
  next
    case False
    with Suc.prems have le: "lo \<le> hi" by simp
    have "P hi (fold f [lo..<hi] s)"
      by (rule Suc.IH [OF le]) (use Suc.prems in auto)
    with le Suc.prems(2) [of hi] show ?thesis by simp
  qed
qed

lemma rev_take_Suc: "i < length a \<Longrightarrow> rev (take (Suc i) a) = a ! i # rev (take i a)"
  by (simp add: take_Suc_conv_app_nth)

lemma prefix_ed_0_left: "prefix_ed a b 0 j = min j (length b)"
  by (simp add: prefix_ed_def)

lemma prefix_ed_0_right: "prefix_ed a b i 0 = min i (length a)"
proof -
  have "ed xs [] = length xs" for xs :: jsstring by (cases xs) simp_all
  then show ?thesis by (simp add: prefix_ed_def)
qed

lemma prefix_ed_Suc:
  "i < length a \<Longrightarrow> j < length b \<Longrightarrow>
   prefix_ed a b (Suc i) (Suc j) =
     min3 (prefix_ed a b i (Suc j) + 1) (prefix_ed a b (Suc i) j + 1) (prefix_ed a b i j + (if a
         ! i = b ! j then 0 else 1))"
  by (simp add: prefix_ed_def rev_take_Suc)

lemma wf_dp_replicate: "wf_dp m n (replicate (m + 1) (replicate (n + 1) 0))"
  by (simp add: wf_dp_def del: replicate_Suc flip: Suc_eq_plus1 add: less_Suc_eq_le [symmetric])

lemma init_col:
  assumes "wf_dp m n dp"
  shows "wf_dp m n (fold (\<lambda>i dp. set2 dp i 0 i) [0..<m + 1] dp) \<and>
         (\<forall>i\<le>m. fold (\<lambda>i dp. set2 dp i 0 i) [0..<m + 1] dp ! i ! 0 = i)"
proof -
  let ?P = "\<lambda>k dp. wf_dp m n dp \<and> (\<forall>i<k. dp ! i ! 0 = i)"
  have "?P (m + 1) (fold (\<lambda>i dp. set2 dp i 0 i) [0..<m + 1] dp)"
  proof (rule fold_upt_invariant [where P = ?P])
    show "?P 0 dp" using assms by simp
    show "0 \<le> m + 1" by simp
    fix i s assume "i < m + 1" "?P i s"
    then show "?P (Suc i) (set2 s i 0 i)"
      by (auto simp: wf_dp_set2 nth_set2 less_Suc_eq)
  qed
  then show ?thesis by (simp add: less_Suc_eq_le)
qed

lemma init_row:
  assumes "wf_dp m n dp" and "\<forall>i\<le>m. dp ! i ! 0 = i"
  shows "wf_dp m n (fold (\<lambda>j dp. set2 dp 0 j j) [0..<n + 1] dp) \<and>
         (\<forall>i\<le>m. fold (\<lambda>j dp. set2 dp 0 j j) [0..<n + 1] dp ! i ! 0 = i) \<and>
         (\<forall>j\<le>n. fold (\<lambda>j dp. set2 dp 0 j j) [0..<n + 1] dp ! 0 ! j = j)"
proof -
  let ?P = "\<lambda>k dp. wf_dp m n dp \<and> (\<forall>i\<le>m. dp ! i ! 0 = i) \<and>
      (\<forall>j<k. dp ! 0 ! j = j)"
  have "?P (n + 1) (fold (\<lambda>j dp. set2 dp 0 j j) [0..<n + 1] dp)"
  proof (rule fold_upt_invariant [where P = ?P])
    show "?P 0 dp" using assms by simp
    show "0 \<le> n + 1" by simp
    fix j s assume "j < n + 1" "?P j s"
    then show "?P (Suc j) (set2 s 0 j j)"
      by (auto simp: wf_dp_set2 nth_set2 less_Suc_eq)
  qed
  then show ?thesis by (simp add: less_Suc_eq_le)
qed

lemma lev_cell_step:
  assumes inv: "dp_upto a b i j dp"
    and i: "1 \<le> i" "i \<le> length a" and j: "1 \<le> j" "j \<le> length b"
  shows "dp_upto a b i (Suc j) (lev_cell a b i j dp)"
proof -
  obtain i0 j0 where ij: "i = Suc i0" "j = Suc j0"
    using i j by (cases i; cases j) auto
  have wf: "wf_dp (length a) (length b) dp"
    using inv by (simp add: dp_upto_def)
  have known: "dp ! i' ! j' = prefix_ed a b i' j'"
    if "i' \<le> length a" "j' \<le> length b" "i' < i \<or> j' = 0 \<or> (i' = i \<and> j' < j)"
        for i' j'
    using inv that by (simp add: dp_upto_def)
  have up: "dp ! i0 ! j = prefix_ed a b i0 j" using i j ij by (intro known) auto
  have left: "dp ! i ! j0 = prefix_ed a b i j0" using i j ij by (intro known) auto
  have diag: "dp ! i0 ! j0 = prefix_ed a b i0 j0" using i j ij by (intro known) auto
  have cell: "lev_cell a b i j dp = set2 dp i j (prefix_ed a b i j)"
    using i j up left diag by (simp add: lev_cell_def ij prefix_ed_Suc)
  show ?thesis
    unfolding dp_upto_def cell
    using wf i j known by (auto simp: wf_dp_set2 nth_set2 less_Suc_eq)
qed

lemma dp_upto_next_row:
  assumes "dp_upto a b i (Suc (length b)) dp"
  shows "dp_upto a b (Suc i) 1 dp"
proof -
  have known: "dp ! i' ! j' = prefix_ed a b i' j'"
    if "i' \<le> length a" "j' \<le> length b" "i' < i \<or> j' = 0 \<or> (i' = i \<and> j' < Suc
        (length b))" for i' j'
    using assms that by (simp add: dp_upto_def)
  show ?thesis
    unfolding dp_upto_def
  proof (intro conjI allI impI)
    show "wf_dp (length a) (length b) dp"
      using assms by (simp add: dp_upto_def)
    fix i' j'
    assume "i' \<le> length a \<and> j' \<le> length b \<and> (i' < Suc i \<or> j' = 0 \<or> i' =
        Suc i \<and> j' < 1)"
    then show "dp ! i' ! j' = prefix_ed a b i' j'"
      by (intro known) auto
  qed
qed

lemma fill_row:
  assumes "dp_upto a b i 1 dp" and "1 \<le> i" and "i \<le> length a"
  shows "dp_upto a b (Suc i) 1 (fold (\<lambda>j dp. lev_cell a b i j dp) [1..<length b + 1] dp)"
proof -
  have "dp_upto a b i (length b + 1) (fold (\<lambda>j dp. lev_cell a b i j dp) [1..<length b +
      1] dp)"
  proof (rule fold_upt_invariant [where P = "dp_upto a b i"])
    show "dp_upto a b i 1 dp" by fact
    show "1 \<le> length b + 1" by simp
    fix j s assume "1 \<le> j" "j < length b + 1" "dp_upto a b i j s"
    then show "dp_upto a b i (Suc j) (lev_cell a b i j s)"
      using assms(2,3) by (intro lev_cell_step) auto
  qed
  then show ?thesis
    using dp_upto_next_row [of a b i] by (simp only: Suc_eq_plus1)
qed

lemma fill_rows:
  assumes "dp_upto a b 1 1 dp"
  shows "dp_upto a b (length a + 1) 1
           (fold (\<lambda>i dp. fold (\<lambda>j dp. lev_cell a b i j dp) [1..<length b + 1] dp)
               [1..<length a + 1] dp)"
proof (rule fold_upt_invariant [where P = "\<lambda>i. dp_upto a b i 1"])
  show "dp_upto a b 1 1 dp" by fact
  show "1 \<le> length a + 1" by simp
  fix i s assume "1 \<le> i" "i < length a + 1" "dp_upto a b i 1 s"
  then show "dp_upto a b (Suc i) 1 (fold (\<lambda>j dp. lev_cell a b i j dp) [1..<length b + 1]
      s)"
    by (intro fill_row) auto
qed

lemma levenshtein_ed: "levenshtein a b = ed (rev a) (rev b)"
proof -
  let ?m = "length a" and ?n = "length b"
  let ?dp0 = "replicate (?m + 1) (replicate (?n + 1) (0::nat))"
  let ?dp1 = "fold (\<lambda>i dp. set2 dp i 0 i) [0..<?m + 1] ?dp0"
  let ?dp2 = "fold (\<lambda>j dp. set2 dp 0 j j) [0..<?n + 1] ?dp1"
  let ?dp3 = "fold (\<lambda>i dp. fold (\<lambda>j dp. lev_cell a b i j dp) [1..<?n + 1] dp)
      [1..<?m + 1] ?dp2"
  have 1: "wf_dp ?m ?n ?dp1 \<and> (\<forall>i\<le>?m. ?dp1 ! i ! 0 = i)"
    by (rule init_col [OF wf_dp_replicate])
  have 2: "wf_dp ?m ?n ?dp2 \<and> (\<forall>i\<le>?m. ?dp2 ! i ! 0 = i) \<and>
      (\<forall>j\<le>?n. ?dp2 ! 0 ! j = j)"
    using 1 by (intro init_row) auto
  have "dp_upto a b 1 1 ?dp2"
    unfolding dp_upto_def using 2 by (auto simp: prefix_ed_0_left prefix_ed_0_right)
  then have "dp_upto a b (?m + 1) 1 ?dp3"
    by (rule fill_rows)
  then have "?dp3 ! ?m ! ?n = prefix_ed a b ?m ?n"
    by (simp add: dp_upto_def)
  then show ?thesis
    by (simp add: levenshtein_def Let_def prefix_ed_def)
qed

section \<open>The recurrence is a metric\<close>

lemma ed_Nil2: "ed xs [] = length xs"
  by (cases xs) simp_all

lemma ed_sym: "ed xs ys = ed ys xs"
  by (induction xs ys rule: ed.induct) (auto simp: ed_Nil2 min3_def)

lemma ed_refl: "ed xs xs = 0"
  by (induction xs) (simp_all add: min3_def)

lemma ed_le_max: "ed xs ys \<le> max (length xs) (length ys)"
  by (induction xs ys rule: ed.induct) (auto simp: min3_def)

lemma ed_le_add: "ed xs ys \<le> length xs + length ys"
  using ed_le_max [of xs ys] by simp

lemma ed_ge_diff: "length ys \<le> length xs + ed xs ys"
  by (induction xs ys rule: ed.induct) (auto simp: min3_def)

lemma ed_Cons_le:
  "ed (x # xs) (y # ys) \<le> ed xs (y # ys) + 1"
  "ed (x # xs) (y # ys) \<le> ed (x # xs) ys + 1"
  "ed (x # xs) (y # ys) \<le> ed xs ys + (if x = y then 0 else 1)"
  by (simp_all add: min3_def)

lemma ed_Cons_cases:
  "ed (x # xs) (y # ys) = ed xs (y # ys) + 1 \<or>
   ed (x # xs) (y # ys) = ed (x # xs) ys + 1 \<or>
   ed (x # xs) (y # ys) = ed xs ys + (if x = y then 0 else 1)"
  by (simp add: min3_def min_def)

lemma ed_triangle: "ed xs zs \<le> ed xs ys + ed ys zs"
proof (induction "length xs + length ys + length zs" arbitrary: xs ys zs rule: less_induct)
  case less
  show ?case
  proof (cases xs)
    case Nil
    then show ?thesis using ed_ge_diff [of zs ys] by (simp add: ed_sym [of ys zs])
  next
    case xs: (Cons x xs')
    show ?thesis
    proof (cases zs)
      case Nil
      then show ?thesis using ed_ge_diff [of xs ys] by (simp add: ed_Nil2 ed_sym [of xs ys])
    next
      case zs: (Cons z zs')
      show ?thesis
      proof (cases ys)
        case Nil
        then show ?thesis using ed_le_add [of xs zs] by (simp add: ed_Nil2)
      next
        case ys: (Cons y ys')
        have IH1: "ed xs' zs \<le> ed xs' ys + ed ys zs"
          by (rule less) (simp add: xs)
        have IH2: "ed xs zs' \<le> ed xs ys + ed ys zs'"
          by (rule less) (simp add: zs)
        have IH4: "ed xs zs \<le> ed xs ys' + ed ys' zs"
          by (rule less) (simp add: ys)
        have IH5: "ed xs zs' \<le> ed xs ys' + ed ys' zs'"
          by (rule less) (simp add: ys zs)
        have IH6: "ed xs' zs \<le> ed xs' ys' + ed ys' zs"
          by (rule less) (simp add: xs ys)
        have IH7: "ed xs' zs' \<le> ed xs' ys' + ed ys' zs'"
          by (rule less) (simp add: xs ys zs)
        have U1: "ed xs zs \<le> ed xs' zs + 1" "ed xs zs \<le> ed xs zs' + 1"
          "ed xs zs \<le> ed xs' zs' + (if x = z then 0 else 1)"
          unfolding xs zs by (rule ed_Cons_le)+
        from ed_Cons_cases [of x xs' y ys'] ed_Cons_cases [of y ys' z zs']
        show ?thesis
          using IH1 IH2 IH4 IH5 IH6 IH7 U1 unfolding xs [symmetric] ys [symmetric] zs [symmetric]
          by (auto split: if_splits)
      qed
    qed
  qed
qed

section \<open>The recurrence is the least number of edits\<close>

lemma ed_ins: "ed xs (y # xs) \<le> 1"
proof (cases xs)
  case Nil
  then show ?thesis by simp
next
  case (Cons x xs')
  have "ed (x # xs') (y # x # xs') \<le> ed (x # xs') (x # xs') + 1"
    by (rule ed_Cons_le)
  then show ?thesis by (simp add: Cons ed_refl del: ed.simps)
qed

lemma ed_edit1: "edit1 xs ys \<Longrightarrow> ed xs ys \<le> 1"
proof (induction rule: edit1.induct)
  case (add xs y)
  show ?case by (rule ed_ins)
next
  case (drop x xs)
  show ?case using ed_ins [of xs x] by (simp only: ed_sym [of "x # xs" xs])
next
  case (replace x xs y)
  have "ed (x # xs) (y # xs) \<le> ed xs xs + (if x = y then 0 else 1)"
    by (rule ed_Cons_le)
  then show ?case by (simp add: ed_refl del: ed.simps split: if_splits)
next
  case (later xs ys z)
  have "ed (z # xs) (z # ys) \<le> ed xs ys + (if z = z then 0 else 1)"
    by (rule ed_Cons_le)
  with later.IH show ?case by simp
qed

lemma ed_le_edits: "(edit1 ^^ n) xs ys \<Longrightarrow> ed xs ys \<le> n"
proof (induction n arbitrary: ys)
  case 0
  then show ?case by (simp add: ed_refl)
next
  case (Suc n)
  then obtain zs where zs: "(edit1 ^^ n) xs zs" "edit1 zs ys" by auto
  have "ed xs ys \<le> ed xs zs + ed zs ys" by (rule ed_triangle)
  also have "\<dots> \<le> n + 1" using Suc.IH [OF zs(1)] ed_edit1 [OF zs(2)] by simp
  finally show ?case by simp
qed

lemma edits_Cons: "(edit1 ^^ n) xs ys \<Longrightarrow> (edit1 ^^ n) (z # xs) (z # ys)"
proof (induction n arbitrary: ys)
  case 0
  then show ?case by simp
next
  case (Suc n)
  then obtain zs where "(edit1 ^^ n) xs zs" "edit1 zs ys" by auto
  with Suc.IH [of zs] show ?case by (auto intro: edit1.later)
qed

lemma edits_ed: "(edit1 ^^ ed xs ys) xs ys"
proof (induction xs ys rule: ed.induct)
  case (1 ys)
  show ?case
  proof (induction ys)
    case Nil
    show ?case by simp
  next
    case (Cons y ys)
    have "edit1 ys (y # ys)" by (rule edit1.add)
    with Cons show ?case by (auto simp del: ed.simps simp add: ed.simps(1))
  qed
next
  case (2 x xs)
  have dels: "(edit1 ^^ length xs) xs []" for xs :: "'a list"
  proof (induction xs)
    case Nil
    show ?case by simp
  next
    case (Cons x xs)
    have "edit1 (x # xs) xs" by (rule edit1.drop)
    then have "(edit1 ^^ Suc (length xs)) (x # xs) []"
      using Cons by (rule relpowp_Suc_I2)
    then show ?case by simp
  qed
  show ?case unfolding ed.simps(2) by (rule dels)
next
  case (3 x xs y ys)
  consider
    (del) "ed (x # xs) (y # ys) = Suc (ed xs (y # ys))"
  | (ins) "ed (x # xs) (y # ys) = Suc (ed (x # xs) ys)"
  | (same) "x = y" "ed (x # xs) (y # ys) = ed xs ys"
  | (sub) "x \<noteq> y" "ed (x # xs) (y # ys) = Suc (ed xs ys)"
    using ed_Cons_cases [of x xs y ys] by (auto split: if_splits)
  then show ?case
  proof cases
    case del
    have "edit1 (x # xs) xs" by (rule edit1.drop)
    with "3.IH"(1) show ?thesis unfolding del by (rule relpowp_Suc_I2 [rotated])
  next
    case ins
    have "edit1 ys (y # ys)" by (rule edit1.add)
    with "3.IH"(2) show ?thesis unfolding ins by (rule relpowp_Suc_I)
  next
    case same
    with edits_Cons [OF "3.IH"(3), of x] show ?thesis by simp
  next
    case sub
    have "edit1 (x # ys) (y # ys)" by (rule edit1.replace)
    with edits_Cons [OF "3.IH"(3), of x] show ?thesis unfolding sub(2) by (rule relpowp_Suc_I)
  qed
qed

lemma edit_distance_ed: "edit_distance xs ys = ed xs ys"
  unfolding edit_distance_def
  by (rule Least_equality) (simp_all add: edits_ed ed_le_edits)

lemma edit1_snoc: "edit1 xs ys \<Longrightarrow> edit1 (xs @ [z]) (ys @ [z])"
  by (induction rule: edit1.induct) (auto intro: edit1.intros)

lemma edit1_append_end:
  "edit1 ws (ws @ [y])" "edit1 (ws @ [x]) ws" "edit1 (ws @ [x]) (ws @ [y])"
  by (induction ws) (auto intro: edit1.intros)

lemma edit1_rev: "edit1 xs ys \<Longrightarrow> edit1 (rev xs) (rev ys)"
  by (induction rule: edit1.induct) (simp_all add: edit1_append_end edit1_snoc)

lemma edits_rev: "(edit1 ^^ n) xs ys \<Longrightarrow> (edit1 ^^ n) (rev xs) (rev ys)"
proof (induction n arbitrary: ys)
  case 0
  then show ?case by simp
next
  case (Suc n)
  then obtain zs where "(edit1 ^^ n) xs zs" "edit1 zs ys" by auto
  with Suc.IH [of zs] show ?case by (auto intro: edit1_rev)
qed

lemma edit_distance_rev: "edit_distance (rev xs) (rev ys) = edit_distance xs ys"
proof -
  have "(edit1 ^^ n) (rev xs) (rev ys) = (edit1 ^^ n) xs ys" for n
    using edits_rev [of n xs ys] edits_rev [of n "rev xs" "rev ys"] by auto
  then show ?thesis by (simp add: edit_distance_def)
qed

lemma levenshtein_edit_distance: "levenshtein a b = edit_distance a b"
  by (simp add: levenshtein_ed flip: edit_distance_ed add: edit_distance_rev)

lemma ed_map_inj: "inj_on f (set xs \<union> set ys) \<Longrightarrow> ed (map f xs) (map f ys) =
    ed xs ys"
proof (induction xs ys rule: ed.induct)
  case (1 ys)
  show ?case by simp
next
  case (2 x xs)
  show ?case by simp
next
  case (3 x xs y ys)
  have a: "inj_on f (set xs \<union> set (y # ys))" and b: "inj_on f (set (x # xs) \<union> set
      ys)"
    and c: "inj_on f (set xs \<union> set ys)"
    using "3.prems" by (auto elim: inj_on_subset)
  have "f x = f y \<longleftrightarrow> x = y"
    using "3.prems" by (auto simp: inj_on_def)
  with "3.IH"(1) [OF a] "3.IH"(2) [OF b] "3.IH"(3) [OF c] show ?case by simp
qed

lemma encode_bmp: "\<forall>cp\<in>set cps. cp < 0x10000 \<Longrightarrow> encode cps = map
    of_nat cps"
  by (induction cps) (simp_all add: encode_def utf16_def)

lemma unat_of_nat_bmp: "(x::nat) < 65536 \<Longrightarrow> unat (of_nat x :: code_unit) = x"
  by (simp add: unat_of_nat)

lemma of_nat_inj_bmp: "inj_on (of_nat :: nat \<Rightarrow> code_unit) {cp. cp < 0x10000}"
proof (rule inj_onI)
  fix x y :: nat
  assume xs: "x \<in> {cp. cp < 0x10000}" and ys: "y \<in> {cp. cp < 0x10000}"
    and eq: "(of_nat x :: code_unit) = of_nat y"
  have "unat (of_nat x :: code_unit) = x" using xs by (intro unat_of_nat_bmp) simp
  moreover have "unat (of_nat y :: code_unit) = y" using ys by (intro unat_of_nat_bmp) simp
  ultimately show "x = y" using eq by metis
qed

section \<open>The fields of the result\<close>

lemma levenshtein_le_max: "levenshtein a b \<le> max (length a) (length b)"
  by (simp only: levenshtein_ed) (use ed_le_max [of "rev a" "rev b"] in simp)

lemma levenshtein_refl: "levenshtein a a = 0"
  by (simp add: levenshtein_ed ed_refl)

lemma count_hits_filter: "count_hits ta ba = length (filter (\<lambda>w. w \<in> ta) ba)"
proof -
  have "fold (\<lambda>w hit. if w \<in> ta then hit + 1 else hit) ba k = k + length (filter
      (\<lambda>w. w \<in> ta) ba)" for k
    by (induction ba arbitrary: k) simp_all
  then show ?thesis by (simp add: count_hits_def)
qed

lemma count_hits_le: "count_hits ta ba \<le> length ba"
  by (simp add: count_hits_filter)

lemma count_hits_all: "set ba \<subseteq> ta \<Longrightarrow> count_hits ta ba = length ba"
  by (simp add: count_hits_filter subset_iff)

lemma split_from_nonempty: "split_from w s \<noteq> []"
  by (induction s arbitrary: w) simp_all

lemma split_space_nonempty: "split_space s \<noteq> []"
  by (simp add: split_space_def split_from_nonempty)

lemma ratio_bounds:
  fixes d m :: nat
  assumes "d \<le> m"
  shows "0 \<le> (of_nat d :: rat) / of_nat m" and "(of_nat d :: rat) / of_nat m \<le> 1"
proof -
  show "0 \<le> (of_nat d :: rat) / of_nat m" by simp
  show "(of_nat d :: rat) / of_nat m \<le> 1"
  proof (cases "m = 0")
    case True
    then show ?thesis by simp
  next
    case False
    then show ?thesis using assms by (simp add: divide_le_eq)
  qed
qed

lemma similarityScore_nfc_core:
  "similarityScore_nfc U target said =
     (if normalizeText_nfc U target = [] \<or> normalizeText_nfc U said = []
      then \<lparr>score = 0, charSim = 0, wordSim = 0\<rparr>
      else score_core (normalizeText_nfc U target) (normalizeText_nfc U said))"
  by (auto simp: similarityScore_nfc_def score_core_def Let_def split_space_nonempty)

lemma similarityScore_nfkd_core:
  "similarityScore_nfkd U target said =
     (if normalizeText_nfkd U target = [] \<or> normalizeText_nfkd U said = []
      then \<lparr>score = 0, charSim = 0, wordSim = 0\<rparr>
      else score_core (normalizeText_nfkd U target) (normalizeText_nfkd U said))"
  by (auto simp: similarityScore_nfkd_def score_core_def Let_def split_space_nonempty)

lemma score_core_charSim_bounds: "0 \<le> charSim (score_core A B)" "charSim (score_core A B)
    \<le> 1"
  using ratio_bounds [OF levenshtein_le_max [of A B]] by (simp_all add: score_core_def)

lemma score_core_wordSim_bounds: "0 \<le> wordSim (score_core A B)" "wordSim (score_core A B)
    \<le> 1"
  using ratio_bounds [OF count_hits_le [of "set (split_space A)" "split_space B"]]
  by (simp_all add: score_core_def)

lemma score_core_score_bounds: "0 \<le> score (score_core A B)" "score (score_core A B) \<le> 1"
  by (simp_all add: score_core_def)

lemma score_core_self:
  assumes "A \<noteq> []"
  shows "score_core A A = \<lparr>score = 1, charSim = 1, wordSim = 1\<rparr>"
proof -
  have "count_hits (set (split_space A)) (split_space A) = length (split_space A)"
    by (simp add: count_hits_all)
  moreover have "length (split_space A) \<noteq> 0"
    by (simp add: split_space_nonempty)
  ultimately show ?thesis
    by (simp add: score_core_def levenshtein_refl)
qed

section \<open>What normalizeText leaves unchanged\<close>

lemma is_space_sp: "is_space 0x20"
  by (simp add: is_space_def)

lemma space_not_surrogate: "is_space c \<Longrightarrow> \<not> is_high c \<and> \<not> is_low c"
  unfolding is_space_def is_high_def is_low_def
  by (auto simp: word_le_nat_alt)

lemma space_not_punctuation: "is_space c \<Longrightarrow> c \<notin> punctuation"
  unfolding is_space_def punctuation_def
  by (auto simp: word_le_nat_alt)

lemma space_not_mark: "is_space c \<Longrightarrow> \<not> (0x0300 \<le> c \<and> c \<le> 0x036F)"
  unfolding is_space_def
  by (auto simp: word_le_nat_alt)

lemma set_collapse_spaces: "set (collapse_spaces s) \<subseteq> insert 0x20 (set s)"
proof (induction s rule: collapse_spaces.induct)
  case 1
  show ?case by simp
next
  case (2 c cs)
  show ?case
  proof (cases "is_space c")
    case True
    with 2 have "set (collapse_spaces (dropWhile is_space cs)) \<subseteq> insert 0x20 (set
        (dropWhile is_space cs))"
      by simp
    also have "\<dots> \<subseteq> insert 0x20 (set cs)"
      by (auto dest: set_dropWhileD)
    finally show ?thesis using True by auto
  next
    case False
    with 2 show ?thesis by auto
  qed
qed

lemma set_trim: "set (trim s) \<subseteq> set s"
  unfolding trim_def by (auto dest!: set_dropWhileD)

lemma collapse_spaces_head:
  "s \<noteq> [] \<Longrightarrow> \<not> is_space (hd s) \<Longrightarrow> collapse_spaces s
      \<noteq> [] \<and> hd (collapse_spaces s) = hd s"
  by (cases s) simp_all

lemma collapsed_Cons_space: "collapsed (0x20 # t) \<longleftrightarrow> (t = [] \<or> \<not>
    is_space (hd t)) \<and> collapsed t"
  by (cases t) (simp_all add: is_space_sp)

lemma collapsed_Cons_other: "\<not> is_space c \<Longrightarrow> collapsed (c # t)
    \<longleftrightarrow> collapsed t"
  by (cases t) simp_all

lemma collapsed_collapse_spaces: "collapsed (collapse_spaces s)"
proof (induction s rule: collapse_spaces.induct)
  case 1
  show ?case by simp
next
  case (2 c cs)
  show ?case
  proof (cases "is_space c")
    case True
    show ?thesis
    proof (cases "dropWhile is_space cs")
      case Nil
      with True show ?thesis by (simp add: is_space_sp del: dropWhile_eq_Nil_conv)
    next
      case (Cons d r)
      then have d: "\<not> is_space d"
        using hd_dropWhile [of is_space cs] by (simp del: dropWhile_eq_Nil_conv)
      from 2(1) [OF True] have "collapsed (collapse_spaces (d # r))"
        by (simp only: Cons)
      with True d show ?thesis
        by (simp add: Cons is_space_sp del: dropWhile_eq_Nil_conv)
    qed
  next
    case False
    with 2 show ?thesis by (simp add: collapsed_Cons_other)
  qed
qed

lemma collapse_spaces_collapsed: "collapsed t \<Longrightarrow> collapse_spaces t = t"
  by (induction t rule: collapsed.induct) auto

lemma collapsed_append: "collapsed (xs @ ys) \<Longrightarrow> collapsed xs \<and> collapsed ys"
proof (induction xs rule: collapsed.induct)
  case 1
  then show ?case by simp
next
  case (2 c)
  then show ?case by (cases ys) auto
next
  case (3 c d r)
  then show ?case by auto
qed

lemma rev_dropWhile_rev: "xs = rev (dropWhile P (rev xs)) @ rev (takeWhile P (rev xs))"
  by (metis rev_append rev_rev_ident takeWhile_dropWhile_id)

lemma trim_prefix: "dropWhile is_space s = trim s @ rev (takeWhile is_space (rev (dropWhile
    is_space s)))"
  unfolding trim_def by (rule rev_dropWhile_rev)

lemma collapsed_trim: "collapsed t \<Longrightarrow> collapsed (trim t)"
proof -
  assume "collapsed t"
  then have "collapsed (takeWhile is_space t @ dropWhile is_space t)" by simp
  then have "collapsed (dropWhile is_space t)" by (blast dest: collapsed_append)
  then have "collapsed (trim t @ rev (takeWhile is_space (rev (dropWhile is_space t))))"
    using trim_prefix [of t] by simp
  then show ?thesis by (blast dest: collapsed_append)
qed

lemma trim_trim: "trim (trim s) = trim s"
proof -
  let ?u = "dropWhile is_space s"
  have "dropWhile is_space (trim s) = trim s"
  proof (cases "trim s")
    case Nil
    then show ?thesis by simp
  next
    case (Cons a v)
    with trim_prefix [of s] have u: "?u = a # (v @ rev (takeWhile is_space (rev ?u)))"
      by simp
    then have "\<not> is_space a"
      by (metis hd_dropWhile list.sel(1) list.distinct(1))
    then show ?thesis by (simp add: Cons)
  qed
  then have "trim (trim s) = rev (dropWhile is_space (rev (trim s)))"
    by (simp only: trim_def [of "trim s"])
  also have "\<dots> = trim s"
    by (simp add: trim_def)
  finally show ?thesis .
qed

lemma keep_unit_space: "is_space c \<Longrightarrow> keep_unit U c"
  by (simp add: keep_unit_def space_not_surrogate)

lemma kept_Cons: "\<not> is_high c \<Longrightarrow> kept U (c # t) \<longleftrightarrow>
    keep_unit U c \<and> kept U t"
  by (cases t) simp_all

lemma kept_remove_others: "kept U (remove_others U s)"
proof (induction U s rule: remove_others.induct)
  case (1 U)
  show ?case by simp
next
  case (2 U c)
  show ?case by simp
next
  case (3 U h l r)
  show ?case
  proof (cases "is_high h \<and> is_low l")
    case True
    with 3 show ?thesis by simp
  next
    case False
    show ?thesis
    proof (cases "keep_unit U h")
      case True
      then have "\<not> is_high h" by (simp add: keep_unit_def)
      then have "kept U (h # remove_others U (l # r)) \<longleftrightarrow> keep_unit U h \<and>
          kept U (remove_others U (l # r))"
        by (rule kept_Cons)
      with 3 False True show ?thesis by auto
    next
      case no: False
      with 3 False show ?thesis by auto
    qed
  qed
qed

lemma remove_others_kept: "kept U t \<Longrightarrow> remove_others U t = t"
  by (induction U t rule: kept.induct) (auto split: if_splits)

lemma set_remove_others: "set (remove_others U s) \<subseteq> set s"
  by (induction U s rule: remove_others.induct) auto

lemma kept_dropWhile: "kept U t \<Longrightarrow> kept U (dropWhile is_space t)"
proof (induction U t rule: kept.induct)
  case (1 U)
  show ?case by simp
next
  case (2 U c)
  then show ?case by simp
next
  case (3 U h l r)
  show ?case
  proof (cases "is_high h \<and> is_low l")
    case True
    then have "\<not> is_space h" using space_not_surrogate by blast
    with "3.prems" show ?thesis by simp
  next
    case False
    with 3 show ?thesis by (auto split: if_splits)
  qed
qed

lemma kept_prefix: "kept U (p @ w) \<Longrightarrow> \<forall>c\<in>set w. is_space c
    \<Longrightarrow> kept U p"
proof (induction U p rule: kept.induct)
  case (1 U)
  show ?case by simp
next
  case (2 U c)
  show ?case
  proof (cases w)
    case Nil
    with 2 show ?thesis by simp
  next
    case (Cons d w')
    with 2 have "\<not> is_low d" using space_not_surrogate by simp
    with 2 Cons show ?thesis by simp
  qed
next
  case (3 U h l r)
  then show ?case by (auto split: if_splits)
qed

lemma kept_collapse_spaces: "kept U t \<Longrightarrow> kept U (collapse_spaces t)"
proof (induction "length t" arbitrary: t rule: less_induct)
  case less
  show ?case
  proof (cases t)
    case Nil
    then show ?thesis by simp
  next
    case (Cons c cs)
    show ?thesis
    proof (cases "is_space c")
      case True
      then have c: "\<not> is_high c" using space_not_surrogate by blast
      with less.prems Cons have "kept U cs" by (simp add: kept_Cons)
      then have "kept U (dropWhile is_space cs)" by (rule kept_dropWhile)
      moreover have "length (dropWhile is_space cs) < length t"
        using length_dropWhile_le [of is_space cs] Cons by simp
      ultimately have "kept U (collapse_spaces (dropWhile is_space cs))"
        by (intro less.hyps)
      then show ?thesis
        using True Cons by (simp add: kept_Cons keep_unit_space is_space_sp space_not_surrogate)
    next
      case False
      show ?thesis
      proof (cases "is_high c \<and> cs \<noteq> [] \<and> is_low (hd cs)")
        case True
        then obtain l r where cs: "cs = l # r" and l: "is_low l" by (cases cs) auto
        then have "\<not> is_space l" using space_not_surrogate by blast
        moreover have "kept U (collapse_spaces r)"
          using less.prems Cons cs True l by (intro less.hyps) auto
        ultimately show ?thesis
          using less.prems Cons cs True l False by simp
      next
        case nopair: False
        have both: "keep_unit U c \<and> kept U cs"
          using less.prems Cons nopair by (cases cs) auto
        then have "\<not> is_high c" by (simp add: keep_unit_def)
        then have "kept U (c # collapse_spaces cs) \<longleftrightarrow> keep_unit U c \<and>
            kept U (collapse_spaces cs)"
          by (rule kept_Cons)
        moreover have "kept U (collapse_spaces cs)"
          using both Cons by (intro less.hyps) auto
        ultimately show ?thesis
          using both Cons False by simp
      qed
    qed
  qed
qed

lemma kept_trim: "kept U t \<Longrightarrow> kept U (trim t)"
proof -
  assume "kept U t"
  then have "kept U (dropWhile is_space t)" by (rule kept_dropWhile)
  then have "kept U (trim t @ rev (takeWhile is_space (rev (dropWhile is_space t))))"
    using trim_prefix [of t] by simp
  moreover have "\<forall>c\<in>set (rev (takeWhile is_space (rev (dropWhile is_space t)))).
      is_space c"
    by (auto dest: set_takeWhileD)
  ultimately show ?thesis by (rule kept_prefix)
qed

lemma tidy_fixed:
  "collapse_spaces (trim (collapse_spaces x)) = trim (collapse_spaces x)"
  "trim (trim (collapse_spaces x)) = trim (collapse_spaces x)"
  by (simp_all add: collapse_spaces_collapsed collapsed_trim collapsed_collapse_spaces trim_trim)

lemma set_tidy: "set (trim (collapse_spaces x)) \<subseteq> insert 0x20 (set x)"
  using set_trim [of "collapse_spaces x"] set_collapse_spaces [of x] by blast

lemma remove_punctuation_tidy:
  "remove_punctuation (trim (collapse_spaces (remove_punctuation x))) = trim (collapse_spaces
      (remove_punctuation x))"
proof -
  have "c \<notin> punctuation" if "c \<in> set (trim (collapse_spaces (remove_punctuation x)))"
      for c
  proof -
    from that set_tidy have "c = 0x20 \<or> c \<in> set (remove_punctuation x)" by blast
    then show ?thesis
      using space_not_punctuation [OF is_space_sp] by (auto simp: remove_punctuation_def)
  qed
  then show ?thesis
    unfolding remove_punctuation_def [of "trim _"] by (simp add: filter_id_conv)
qed

lemma remove_marks_tidy:
  "remove_marks (trim (collapse_spaces (remove_others U (remove_marks x))))
     = trim (collapse_spaces (remove_others U (remove_marks x)))"
proof -
  have "\<not> (0x0300 \<le> c \<and> c \<le> 0x036F)"
    if "c \<in> set (trim (collapse_spaces (remove_others U (remove_marks x))))" for c
  proof -
    from that set_tidy have "c = 0x20 \<or> c \<in> set (remove_others U (remove_marks x))" by
        blast
    then have "c = 0x20 \<or> c \<in> set (remove_marks x)"
      using set_remove_others by blast
    then show ?thesis
      using space_not_mark [OF is_space_sp] by (auto simp: remove_marks_def)
  qed
  then show ?thesis
    unfolding remove_marks_def [of "trim _"] by (simp add: filter_id_conv)
qed

lemma remove_others_tidy:
  "remove_others U (trim (collapse_spaces (remove_others U y))) = trim (collapse_spaces
      (remove_others U y))"
  by (intro remove_others_kept kept_trim kept_collapse_spaces kept_remove_others)

lemma normalizeText_nfc_empty: "normalizeText_nfc U [] = []"
  by (simp add: normalizeText_nfc_def)

lemma normalizeText_nfkd_empty: "normalizeText_nfkd U [] = []"
  by (simp add: normalizeText_nfkd_def toLowerCase_def normalize_form_def remove_marks_def
      trim_def)

lemma normalizeText_nfc_fixed:
  assumes "toLowerCase U (normalizeText_nfc U s) = normalizeText_nfc U s"
    and "normalize_form U NFC (normalizeText_nfc U s) = normalizeText_nfc U s"
  shows "normalizeText_nfc U (normalizeText_nfc U s) = normalizeText_nfc U s"
proof (cases "s = []")
  case True
  then show ?thesis by (simp add: normalizeText_nfc_def)
next
  case False
  let ?x = "remove_punctuation (normalize_form U NFC (toLowerCase U s))"
  let ?t = "trim (collapse_spaces ?x)"
  have t: "normalizeText_nfc U s = ?t"
    using False by (simp add: normalizeText_nfc_def)
  have "normalizeText_nfc U ?t = (if ?t = [] then [] else trim (collapse_spaces
      (remove_punctuation ?t)))"
    using assms unfolding t by (simp add: normalizeText_nfc_def [of U ?t])
  also have "\<dots> = ?t"
    by (simp add: remove_punctuation_tidy tidy_fixed del: collapse_spaces.simps)
  finally show ?thesis by (simp only: t)
qed

lemma normalizeText_nfkd_fixed:
  assumes "toLowerCase U (normalizeText_nfkd U s) = normalizeText_nfkd U s"
    and "normalize_form U NFKD (normalizeText_nfkd U s) = normalizeText_nfkd U s"
  shows "normalizeText_nfkd U (normalizeText_nfkd U s) = normalizeText_nfkd U s"
proof -
  let ?x = "remove_marks (normalize_form U NFKD (toLowerCase U s))"
  let ?t = "trim (collapse_spaces (remove_others U ?x))"
  have t: "normalizeText_nfkd U s = ?t"
    by (simp add: normalizeText_nfkd_def)
  have "normalizeText_nfkd U ?t = trim (collapse_spaces (remove_others U (remove_marks ?t)))"
    using assms unfolding t by (simp add: normalizeText_nfkd_def [of U ?t])
  also have "\<dots> = ?t"
    by (simp only: remove_marks_tidy remove_others_tidy tidy_fixed)
  finally show ?thesis by (simp only: t)
qed

section \<open>Inputs with the same normalisation score the same\<close>

lemma normalizeText_nfc_chain:
  "normalizeText_nfc U x =
     trim (collapse_spaces (remove_punctuation (normalize_form U NFC (toLowerCase U x))))"
  by (simp add: normalizeText_nfc_def toLowerCase_def normalize_form_def remove_punctuation_def
        trim_def)

lemma normalizeText_nfc_case:
  assumes "toLowerCase U s = toLowerCase U s'"
  shows "normalizeText_nfc U s = normalizeText_nfc U s'"
  by (simp only: normalizeText_nfc_chain assms)

lemma normalizeText_nfkd_accent:
  assumes "remove_marks (normalize_form U NFKD (toLowerCase U s)) =
           remove_marks (normalize_form U NFKD (toLowerCase U s'))"
  shows "normalizeText_nfkd U s = normalizeText_nfkd U s'"
  by (simp only: normalizeText_nfkd_def assms)

lemma normalizeText_nfkd_case:
  assumes "toLowerCase U s = toLowerCase U s'"
  shows "normalizeText_nfkd U s = normalizeText_nfkd U s'"
  by (simp only: normalizeText_nfkd_def assms)

lemma similarityScore_nfc_cong:
  assumes "normalizeText_nfc U s = normalizeText_nfc U s'"
  shows "similarityScore_nfc U s t = similarityScore_nfc U s' t"
    and "similarityScore_nfc U t s = similarityScore_nfc U t s'"
  by (simp_all only: similarityScore_nfc_def assms)

lemma similarityScore_nfkd_cong:
  assumes "normalizeText_nfkd U s = normalizeText_nfkd U s'"
  shows "similarityScore_nfkd U s t = similarityScore_nfkd U s' t"
    and "similarityScore_nfkd U t s = similarityScore_nfkd U t s'"
  by (simp_all only: similarityScore_nfkd_def assms)

section \<open>The invariant of the component\<close>

lemmas handler_defs =
  startRecording_def toggleRecording_def playAudio_def newTwister_def refreshTwister_def
  onresult_def onerror_def onend_def ontimeout_def abort_def start_possible_def
  startRecording_alt_def newTwister_alt_def onresult_alt_def onerror_alt_def

lemma capped_init: "capped (init_app avail)" "capped_alt (init_app_alt avail)"
  by (simp_all add: capped_def capped_alt_def init_app_def init_app_alt_def)

lemma capped_handle: "capped s \<Longrightarrow> enabled s e \<Longrightarrow> capped (handle U e
    s)"
  by (cases e) (auto simp: capped_def handler_defs Let_def split: start_outcome.splits
      option.splits)

lemma capped_handle_alt:
  "capped_alt s \<Longrightarrow> enabled_alt s e \<Longrightarrow> capped_alt (handle_alt sim e
      s)"
  by (cases e)
     (auto simp: capped_def capped_alt_def handler_defs Let_def
           split: start_outcome.splits option.splits)

lemma capped_run: "capped s \<Longrightarrow> run U es s = Some s' \<Longrightarrow> capped s'"
  by (induction es arbitrary: s) (auto intro: capped_handle split: if_splits)

lemma capped_run_alt: "capped_alt s \<Longrightarrow> run_alt sim es s = Some s'
    \<Longrightarrow> capped_alt s'"
  by (induction es arbitrary: s) (auto intro: capped_handle_alt split: if_splits)

lemma at_cap:
  assumes "capped s" and "attempt s = 6" and "enabled s e"
  shows "e = ClickNew \<or>
         (background e \<and> attempt (handle U e s) = 6 \<and> scores (handle U e s) = scores s)"
  using assms
  by (cases e) (auto simp: capped_def handler_defs Let_def split: start_outcome.splits
      option.splits)

lemma at_cap_alt:
  assumes "capped_alt s" and "attempt s = 6" and "enabled_alt s e"
  shows "e = ClickNew \<or>
         (background e \<and> attempt (handle_alt sim e s) = 6 \<and> scores (handle_alt sim e s)
             = scores s)"
  using assms
  by (cases e)
     (auto simp: capped_def capped_alt_def handler_defs Let_def
           split: start_outcome.splits option.splits)

lemma start_never_while_active_alt:
  assumes "run_alt sim es (init_app_alt avail) = Some s" and "enabled_alt s (ClickStart out)"
  shows "active s = None"
proof -
  have "capped_alt s" by (rule capped_run_alt [OF capped_init(2) assms(1)])
  with assms(2) show ?thesis by (auto simp: capped_alt_def)
qed

lemma run_six_attempts:
  "run ucd six_attempts (init_app True) \<noteq> None \<and>
   attempt (the (run ucd six_attempts (init_app True))) = 6"
  by (simp add: six_attempts_def init_app_def handler_defs Let_def)

lemma run_six_attempts_alt:
  "run_alt (similarityScore_nfkd ucd) six_attempts_alt (init_app_alt True) \<noteq> None \<and>
   attempt (the (run_alt (similarityScore_nfkd ucd) six_attempts_alt (init_app_alt True))) = 6"
  by (simp add: six_attempts_alt_def init_app_alt_def handler_defs Let_def)

section \<open>The claims\<close>

lemmas eval_defs =
  normalizeText_nfc_def normalizeText_nfkd_def toLowerCase_def normalize_form_def ucd_def
  lower_unit_def decompose_unit_def compat_unit_def remove_punctuation_def punctuation_def
  remove_marks_def keep_unit_def keep_point_def is_high_def is_low_def is_space_def trim_def
  split_space_def count_hits_def levenshtein_ed min3_def

text \<open>
  \<^bold>\<open>C1\<close>. For every pair of input strings, and whatever the Unicode tables are, the three fields
  \<open>score\<close>, \<open>charSim\<close> and \<open>wordSim\<close> of the record that \<^verbatim>\<open>similarityScore\<close> returns lie in
  the closed interval from 0 to 1, in both versions.
\<close>

theorem similarityScore_unit_interval:
  "0 \<le> score (similarityScore_nfc U target said) \<and> score (similarityScore_nfc U target
      said) \<le> 1 \<and>
   0 \<le> charSim (similarityScore_nfc U target said) \<and> charSim (similarityScore_nfc U
       target said) \<le> 1 \<and>
   0 \<le> wordSim (similarityScore_nfc U target said) \<and> wordSim (similarityScore_nfc U
       target said) \<le> 1 \<and>
   0 \<le> score (similarityScore_nfkd U target said) \<and> score (similarityScore_nfkd U target
       said) \<le> 1 \<and>
   0 \<le> charSim (similarityScore_nfkd U target said) \<and> charSim (similarityScore_nfkd U
       target said) \<le> 1 \<and>
   0 \<le> wordSim (similarityScore_nfkd U target said) \<and> wordSim (similarityScore_nfkd U
       target said) \<le> 1"
  by (simp add: similarityScore_nfc_core similarityScore_nfkd_core score_core_charSim_bounds
        score_core_wordSim_bounds score_core_score_bounds)

theorem similarityScore_unit_interval_witness:
  "0 \<le> score (similarityScore_nfc ucd [0x63, 0x61, 0x74] [0x62, 0x61, 0x74]) \<and>
   score (similarityScore_nfc ucd [0x63, 0x61, 0x74] [0x62, 0x61, 0x74]) \<le> 1 \<and>
   0 \<le> charSim (similarityScore_nfkd ucd [0x63, 0x61, 0x74] [0x62, 0x61, 0x74]) \<and>
   charSim (similarityScore_nfkd ucd [0x63, 0x61, 0x74] [0x62, 0x61, 0x74]) \<le> 1 \<and>
   0 \<le> wordSim (similarityScore_nfkd ucd [0x63, 0x61, 0x74] [0x62, 0x61, 0x74]) \<and>
   wordSim (similarityScore_nfkd ucd [0x63, 0x61, 0x74] [0x62, 0x61, 0x74]) \<le> 1"
  using similarityScore_unit_interval [of ucd "[0x63, 0x61, 0x74]" "[0x62, 0x61, 0x74]"]
  by blast

text \<open>
  \<^bold>\<open>C2\<close>. If one of the two inputs normalises to the empty string, \<^verbatim>\<open>similarityScore\<close> returns
  the record with all three fields 0; in particular when one of the inputs is the empty
  string. The model has no failing branch: the guard of lines 47 and 294 returns before any
  division.
\<close>

theorem similarityScore_empty_input:
  "(normalizeText_nfc U target = [] \<or> normalizeText_nfc U said = [] \<longrightarrow>
      similarityScore_nfc U target said = \<lparr>score = 0, charSim = 0, wordSim = 0\<rparr>)
          \<and>
   similarityScore_nfc U x [] = \<lparr>score = 0, charSim = 0, wordSim = 0\<rparr> \<and>
   similarityScore_nfc U [] x = \<lparr>score = 0, charSim = 0, wordSim = 0\<rparr> \<and>
   (normalizeText_nfkd U target = [] \<or> normalizeText_nfkd U said = [] \<longrightarrow>
      similarityScore_nfkd U target said = \<lparr>score = 0, charSim = 0, wordSim = 0\<rparr>)
          \<and>
   similarityScore_nfkd U x [] = \<lparr>score = 0, charSim = 0, wordSim = 0\<rparr> \<and>
   similarityScore_nfkd U [] x = \<lparr>score = 0, charSim = 0, wordSim = 0\<rparr>"
  by (simp add: similarityScore_nfc_core similarityScore_nfkd_core normalizeText_nfc_empty
        normalizeText_nfkd_empty)

theorem similarityScore_empty_input_witness:
  "normalizeText_nfc ucd [0x2E] = [] \<and> normalizeText_nfkd ucd [0x2E] = [] \<and>
   similarityScore_nfc ucd [0x2E] [0x61] = \<lparr>score = 0, charSim = 0, wordSim = 0\<rparr>
       \<and>
   similarityScore_nfkd ucd [0x2E] [0x61] = \<lparr>score = 0, charSim = 0, wordSim = 0\<rparr>
       \<and>
   similarityScore_nfc ucd [0x61] [] = \<lparr>score = 0, charSim = 0, wordSim = 0\<rparr> \<and>
   similarityScore_nfkd ucd [] [0x61] = \<lparr>score = 0, charSim = 0, wordSim = 0\<rparr>"
proof -
  have e: "normalizeText_nfc ucd [0x2E] = []" "normalizeText_nfkd ucd [0x2E] = []"
    by (simp_all add: eval_defs)
  with similarityScore_empty_input [of ucd "[0x2E]" "[0x61]" "[0x61]"] show ?thesis
    by simp
qed

text \<open>
  \<^bold>\<open>C3\<close>. As stated (\<open>charSim\<close> is strictly positive when both normalised strings are not
  empty) the claim fails: the strings "a" and "b" differ in their only character, the
  distance equals the longer length and \<open>charSim\<close> is 0.
\<close>

theorem charSim_positive_counterexample:
  "normalizeText_nfc ucd [0x61] \<noteq> [] \<and> normalizeText_nfc ucd [0x62] \<noteq> [] \<and>
   charSim (similarityScore_nfc ucd [0x61] [0x62]) = 0 \<and>
   \<not> 0 < charSim (similarityScore_nfc ucd [0x61] [0x62]) \<and>
   normalizeText_nfkd ucd [0x61] \<noteq> [] \<and> normalizeText_nfkd ucd [0x62] \<noteq> []
       \<and>
   charSim (similarityScore_nfkd ucd [0x61] [0x62]) = 0 \<and>
   \<not> 0 < charSim (similarityScore_nfkd ucd [0x61] [0x62])"
proof -
  have n: "normalizeText_nfc ucd [0x61] = [0x61]" "normalizeText_nfc ucd [0x62] = [0x62]"
    "normalizeText_nfkd ucd [0x61] = [0x61]" "normalizeText_nfkd ucd [0x62] = [0x62]"
    by (simp_all add: eval_defs)
  have l: "levenshtein [0x61] [0x62] = 1"
    by (simp add: levenshtein_ed min3_def)
  show ?thesis
    by (simp add: similarityScore_nfc_core similarityScore_nfkd_core score_core_def n l)
qed

text \<open>
  \<^bold>\<open>C3\<close>, amended. When both normalised strings are not empty, \<open>charSim\<close> is 1 minus the
  edit distance divided by the longer length, and lies in the closed interval from 0 to 1.
\<close>

theorem charSim_formula:
  "(normalizeText_nfc U target \<noteq> [] \<and> normalizeText_nfc U said \<noteq> []
      \<longrightarrow>
      charSim (similarityScore_nfc U target said) =
        1 - of_nat (levenshtein (normalizeText_nfc U target) (normalizeText_nfc U said))
            / of_nat (max (length (normalizeText_nfc U target)) (length (normalizeText_nfc U
                said))) \<and>
      0 \<le> charSim (similarityScore_nfc U target said) \<and>
      charSim (similarityScore_nfc U target said) \<le> 1) \<and>
   (normalizeText_nfkd U target \<noteq> [] \<and> normalizeText_nfkd U said \<noteq> []
       \<longrightarrow>
      charSim (similarityScore_nfkd U target said) =
        1 - of_nat (levenshtein (normalizeText_nfkd U target) (normalizeText_nfkd U said))
            / of_nat (max (length (normalizeText_nfkd U target)) (length (normalizeText_nfkd U
                said))) \<and>
      0 \<le> charSim (similarityScore_nfkd U target said) \<and>
      charSim (similarityScore_nfkd U target said) \<le> 1)"
proof (intro conjI impI)
qed (simp_all add: similarityScore_nfc_core similarityScore_nfkd_core score_core_charSim_bounds,
     simp_all add: score_core_def)

theorem charSim_formula_witness:
  "normalizeText_nfc ucd [0x63, 0x61, 0x74] \<noteq> [] \<and> normalizeText_nfc ucd [0x62, 0x61,
      0x74] \<noteq> [] \<and>
   normalizeText_nfkd ucd [0x63, 0x61, 0x74] \<noteq> [] \<and> normalizeText_nfkd ucd [0x62,
       0x61, 0x74] \<noteq> [] \<and>
   charSim (similarityScore_nfc ucd [0x63, 0x61, 0x74] [0x62, 0x61, 0x74]) = 2 / 3 \<and>
   charSim (similarityScore_nfkd ucd [0x63, 0x61, 0x74] [0x62, 0x61, 0x74]) = 2 / 3"
proof -
  have n: "normalizeText_nfc ucd [0x63, 0x61, 0x74] = [0x63, 0x61, 0x74]"
    "normalizeText_nfc ucd [0x62, 0x61, 0x74] = [0x62, 0x61, 0x74]"
    "normalizeText_nfkd ucd [0x63, 0x61, 0x74] = [0x63, 0x61, 0x74]"
    "normalizeText_nfkd ucd [0x62, 0x61, 0x74] = [0x62, 0x61, 0x74]"
    by (simp_all add: eval_defs)
  have l: "levenshtein [0x63, 0x61, 0x74] [0x62, 0x61, 0x74] = 1"
    by (simp add: levenshtein_ed min3_def)
  from charSim_formula [of ucd "[0x63, 0x61, 0x74]" "[0x62, 0x61, 0x74]"] show ?thesis
    by (simp add: n l)
qed

text \<open>
  \<^bold>\<open>C4\<close>. As stated (a code point outside the Basic Multilingual Plane counts as one unit)
  the claim fails: \<^verbatim>\<open>levenshtein\<close> indexes code units. Against the empty string the one code
  point U+1F600, the surrogate pair D83D DE00, has distance 2, while the distance between the
  sequences of code points is 1.
\<close>

theorem levenshtein_astral_counterexample:
  "encode [0x1F600] = [0xD83D, 0xDE00] \<and>
   levenshtein (encode [0x1F600]) (encode []) = 2 \<and>
   edit_distance [0x1F600 :: nat] [] = 1 \<and>
   levenshtein (encode [0x1F600]) (encode []) \<noteq> edit_distance [0x1F600 :: nat] []"
  by (simp add: levenshtein_ed edit_distance_ed encode_def utf16_def)

text \<open>
  \<^bold>\<open>C4\<close>, amended. \<^verbatim>\<open>levenshtein\<close> computes the unit-cost insert/delete/substitute edit
  distance between its two arguments as sequences of UTF-16 code units. For strings whose code
  points all lie in the Basic Multilingual Plane this is the distance between the sequences
  of code points.
\<close>

theorem levenshtein_code_units:
  "levenshtein a b = edit_distance a b \<and>
   ((\<forall>cp \<in> set cps \<union> set cps'. cp < 0x10000) \<longrightarrow>
      levenshtein (encode cps) (encode cps') = edit_distance cps cps')"
proof (intro conjI impI)
  show "levenshtein a b = edit_distance a b"
    by (rule levenshtein_edit_distance)
next
  assume bmp: "\<forall>cp \<in> set cps \<union> set cps'. cp < 0x10000"
  then have enc: "encode cps = map of_nat cps" "encode cps' = map of_nat cps'"
    by (simp_all add: encode_bmp)
  have "inj_on (of_nat :: nat \<Rightarrow> code_unit) (set cps \<union> set cps')"
    using bmp by (intro inj_on_subset [OF of_nat_inj_bmp]) auto
  then have "ed (map (of_nat :: nat \<Rightarrow> code_unit) cps) (map of_nat cps') = ed cps cps'"
    by (rule ed_map_inj)
  then show "levenshtein (encode cps) (encode cps') = edit_distance cps cps'"
    by (simp only: enc levenshtein_edit_distance edit_distance_ed)
qed

theorem levenshtein_code_units_witness:
  "(0x63 :: nat) < 0x10000 \<and> (0x61 :: nat) < 0x10000 \<and> (0x74 :: nat) < 0x10000 \<and>
   (0x62 :: nat) < 0x10000 \<and>
   levenshtein [0x63, 0x61, 0x74] [0x62, 0x61, 0x74] = 1 \<and>
   edit_distance [0x63, 0x61, 0x74 :: code_unit] [0x62, 0x61, 0x74] = 1 \<and>
   levenshtein (encode [0x63, 0x61, 0x74]) (encode [0x62, 0x61, 0x74]) = 1 \<and>
   edit_distance [0x63, 0x61, 0x74 :: nat] [0x62, 0x61, 0x74] = 1"
proof -
  have l: "levenshtein [0x63, 0x61, 0x74] [0x62, 0x61, 0x74] = 1"
    by (simp add: levenshtein_ed min3_def)
  have e: "encode [0x63, 0x61, 0x74] = [0x63, 0x61, 0x74]" "encode [0x62, 0x61, 0x74] = [0x62,
      0x61, 0x74]"
    by (simp_all add: encode_def utf16_def)
  from levenshtein_code_units
         [of "[0x63, 0x61, 0x74]" "[0x62, 0x61, 0x74]" "[0x63, 0x61, 0x74]" "[0x62, 0x61, 0x74]"]
  show ?thesis by (simp add: l e)
qed

text \<open>
  \<^bold>\<open>C5\<close>. As stated the claim fails for the first version: \<^verbatim>\<open>normalize("NFC")\<close> keeps U+00E9
  and no later step removes it. The input 43 61 66 E9 (the word of the claim, with U+00E9 as
  its last letter) against "cafe" has one substitution in four code units, and \<open>charSim\<close> is
  3/4.
\<close>

theorem cafe_nfc_counterexample:
  "normalizeText_nfc ucd [0x43, 0x61, 0x66, 0xE9] = [0x63, 0x61, 0x66, 0xE9] \<and>
   normalizeText_nfc ucd [0x63, 0x61, 0x66, 0x65] = [0x63, 0x61, 0x66, 0x65] \<and>
   charSim (similarityScore_nfc ucd [0x43, 0x61, 0x66, 0xE9] [0x63, 0x61, 0x66, 0x65]) = 3 / 4
       \<and>
   charSim (similarityScore_nfc ucd [0x43, 0x61, 0x66, 0xE9] [0x63, 0x61, 0x66, 0x65]) \<noteq> 1"
proof -
  have n: "normalizeText_nfc ucd [0x43, 0x61, 0x66, 0xE9] = [0x63, 0x61, 0x66, 0xE9]"
    "normalizeText_nfc ucd [0x63, 0x61, 0x66, 0x65] = [0x63, 0x61, 0x66, 0x65]"
    by (simp_all add: eval_defs)
  have l: "levenshtein [0x63, 0x61, 0x66, 0xE9] [0x63, 0x61, 0x66, 0x65] = 1"
    by (simp add: levenshtein_ed min3_def)
  show ?thesis
    by (simp add: similarityScore_nfc_core score_core_def n l)
qed

text \<open>
  \<^bold>\<open>C5\<close>, amended. \<^verbatim>\<open>similarityScore\<close> is case-insensitive in both versions: two inputs with
  the same \<^verbatim>\<open>toLowerCase\<close> give the same result, as target and as transcript. The NFKD version
  is also accent-insensitive: two inputs whose lower-cased NFKD forms are equal once the
  combining marks U+0300..U+036F are removed give the same result, as target and as
  transcript. For the two inputs of the claim the NFKD version returns \<open>charSim = 1\<close> and the
  NFC version, which strips no mark, returns \<open>charSim = 3/4\<close>; the hypotheses of this last part
  are the entries of the Unicode tables that the computation reads.
\<close>

theorem similarityScore_case_and_accent:
  "(toLowerCase U s = toLowerCase U s' \<longrightarrow>
      similarityScore_nfc U s t = similarityScore_nfc U s' t \<and>
      similarityScore_nfc U t s = similarityScore_nfc U t s' \<and>
      similarityScore_nfkd U s t = similarityScore_nfkd U s' t \<and>
      similarityScore_nfkd U t s = similarityScore_nfkd U t s') \<and>
   (remove_marks (normalize_form U NFKD (toLowerCase U a)) =
    remove_marks (normalize_form U NFKD (toLowerCase U a')) \<longrightarrow>
      similarityScore_nfkd U a t = similarityScore_nfkd U a' t \<and>
      similarityScore_nfkd U t a = similarityScore_nfkd U t a') \<and>
   (lower_case U [0x43, 0x61, 0x66, 0xE9] = [0x63, 0x61, 0x66, 0xE9] \<and>
    lower_case U [0x63, 0x61, 0x66, 0x65] = [0x63, 0x61, 0x66, 0x65] \<and>
    nfkd U [0x63, 0x61, 0x66, 0xE9] = [0x63, 0x61, 0x66, 0x65, 0x0301] \<and>
    nfkd U [0x63, 0x61, 0x66, 0x65] = [0x63, 0x61, 0x66, 0x65] \<and>
    nfc U [0x63, 0x61, 0x66, 0xE9] = [0x63, 0x61, 0x66, 0xE9] \<and>
    nfc U [0x63, 0x61, 0x66, 0x65] = [0x63, 0x61, 0x66, 0x65] \<and>
    letter U 0x63 \<and> letter U 0x61 \<and> letter U 0x66 \<and> letter U 0x65 \<longrightarrow>
      charSim (similarityScore_nfkd U [0x43, 0x61, 0x66, 0xE9] [0x63, 0x61, 0x66, 0x65]) = 1
          \<and>
      charSim (similarityScore_nfc U [0x43, 0x61, 0x66, 0xE9] [0x63, 0x61, 0x66, 0x65]) = 3 / 4)"
proof (intro conjI impI)
  assume low: "toLowerCase U s = toLowerCase U s'"
  have c: "normalizeText_nfc U s = normalizeText_nfc U s'"
    using low by (rule normalizeText_nfc_case)
  have k: "normalizeText_nfkd U s = normalizeText_nfkd U s'"
    using low by (rule normalizeText_nfkd_case)
  show "similarityScore_nfc U s t = similarityScore_nfc U s' t"
    using c by (rule similarityScore_nfc_cong)
  show "similarityScore_nfc U t s = similarityScore_nfc U t s'"
    using c by (rule similarityScore_nfc_cong)
  show "similarityScore_nfkd U s t = similarityScore_nfkd U s' t"
    using k by (rule similarityScore_nfkd_cong)
  show "similarityScore_nfkd U t s = similarityScore_nfkd U t s'"
    using k by (rule similarityScore_nfkd_cong)
next
  assume "remove_marks (normalize_form U NFKD (toLowerCase U a)) =
          remove_marks (normalize_form U NFKD (toLowerCase U a'))"
  then have k: "normalizeText_nfkd U a = normalizeText_nfkd U a'"
    by (rule normalizeText_nfkd_accent)
  show "similarityScore_nfkd U a t = similarityScore_nfkd U a' t"
    using k by (rule similarityScore_nfkd_cong)
  show "similarityScore_nfkd U t a = similarityScore_nfkd U t a'"
    using k by (rule similarityScore_nfkd_cong)
next
  assume tab:
    "lower_case U [0x43, 0x61, 0x66, 0xE9] = [0x63, 0x61, 0x66, 0xE9] \<and>
     lower_case U [0x63, 0x61, 0x66, 0x65] = [0x63, 0x61, 0x66, 0x65] \<and>
     nfkd U [0x63, 0x61, 0x66, 0xE9] = [0x63, 0x61, 0x66, 0x65, 0x0301] \<and>
     nfkd U [0x63, 0x61, 0x66, 0x65] = [0x63, 0x61, 0x66, 0x65] \<and>
     nfc U [0x63, 0x61, 0x66, 0xE9] = [0x63, 0x61, 0x66, 0xE9] \<and>
     nfc U [0x63, 0x61, 0x66, 0x65] = [0x63, 0x61, 0x66, 0x65] \<and>
     letter U 0x63 \<and> letter U 0x61 \<and> letter U 0x66 \<and> letter U 0x65"
  have kd: "normalizeText_nfkd U [0x43, 0x61, 0x66, 0xE9] = [0x63, 0x61, 0x66, 0x65]"
    "normalizeText_nfkd U [0x63, 0x61, 0x66, 0x65] = [0x63, 0x61, 0x66, 0x65]"
    using tab
    by (simp_all add: normalizeText_nfkd_def toLowerCase_def normalize_form_def remove_marks_def
          keep_unit_def is_high_def is_low_def is_space_def trim_def)
  have c: "normalizeText_nfc U [0x43, 0x61, 0x66, 0xE9] = [0x63, 0x61, 0x66, 0xE9]"
    "normalizeText_nfc U [0x63, 0x61, 0x66, 0x65] = [0x63, 0x61, 0x66, 0x65]"
    using tab
    by (simp_all add: normalizeText_nfc_def toLowerCase_def normalize_form_def
        remove_punctuation_def
          punctuation_def is_space_def trim_def)
  have l: "levenshtein [0x63, 0x61, 0x66, 0x65] [0x63, 0x61, 0x66, 0x65] = 0"
    "levenshtein [0x63, 0x61, 0x66, 0xE9] [0x63, 0x61, 0x66, 0x65] = 1"
    by (simp_all add: levenshtein_ed min3_def)
  show "charSim (similarityScore_nfkd U [0x43, 0x61, 0x66, 0xE9] [0x63, 0x61, 0x66, 0x65]) = 1"
    by (simp add: similarityScore_nfkd_core kd score_core_def l)
  show "charSim (similarityScore_nfc U [0x43, 0x61, 0x66, 0xE9] [0x63, 0x61, 0x66, 0x65]) = 3 / 4"
    by (simp add: similarityScore_nfc_core c score_core_def l)
qed

theorem similarityScore_case_and_accent_witness:
  "toLowerCase ucd [0x43, 0x41, 0x46, 0x45] = [0x63, 0x61, 0x66, 0x65] \<and>
   toLowerCase ucd [0x63, 0x61, 0x66, 0x65] = [0x63, 0x61, 0x66, 0x65] \<and>
   similarityScore_nfc ucd [0x43, 0x41, 0x46, 0x45] [0x63, 0x61, 0x66, 0x65] =
     \<lparr>score = 1, charSim = 1, wordSim = 1\<rparr> \<and>
   similarityScore_nfc ucd [0x63, 0x61, 0x66, 0x65] [0x43, 0x41, 0x46, 0x45] =
     \<lparr>score = 1, charSim = 1, wordSim = 1\<rparr> \<and>
   similarityScore_nfkd ucd [0x43, 0x41, 0x46, 0x45] [0x63, 0x61, 0x66, 0x65] =
     \<lparr>score = 1, charSim = 1, wordSim = 1\<rparr> \<and>
   similarityScore_nfkd ucd [0x63, 0x61, 0x66, 0x65] [0x43, 0x41, 0x46, 0x45] =
     \<lparr>score = 1, charSim = 1, wordSim = 1\<rparr> \<and>
   remove_marks (normalize_form ucd NFKD (toLowerCase ucd [0x43, 0x61, 0x66, 0xE9])) =
     [0x63, 0x61, 0x66, 0x65] \<and>
   remove_marks (normalize_form ucd NFKD (toLowerCase ucd [0x63, 0x61, 0x66, 0x65])) =
     [0x63, 0x61, 0x66, 0x65] \<and>
   similarityScore_nfkd ucd [0x43, 0x61, 0x66, 0xE9] [0x63, 0x61, 0x66, 0x65] =
     \<lparr>score = 1, charSim = 1, wordSim = 1\<rparr> \<and>
   similarityScore_nfkd ucd [0x63, 0x61, 0x66, 0x65] [0x43, 0x61, 0x66, 0xE9] =
     \<lparr>score = 1, charSim = 1, wordSim = 1\<rparr> \<and>
   lower_case ucd [0x43, 0x61, 0x66, 0xE9] = [0x63, 0x61, 0x66, 0xE9] \<and>
   nfkd ucd [0x63, 0x61, 0x66, 0xE9] = [0x63, 0x61, 0x66, 0x65, 0x0301] \<and>
   nfc ucd [0x63, 0x61, 0x66, 0xE9] = [0x63, 0x61, 0x66, 0xE9] \<and>
   letter ucd 0x63 \<and> letter ucd 0x61 \<and> letter ucd 0x66 \<and> letter ucd 0x65 \<and>
   charSim (similarityScore_nfkd ucd [0x43, 0x61, 0x66, 0xE9] [0x63, 0x61, 0x66, 0x65]) = 1 \<and>
   charSim (similarityScore_nfc ucd [0x43, 0x61, 0x66, 0xE9] [0x63, 0x61, 0x66, 0x65]) = 3 / 4"
proof -
  have low: "toLowerCase ucd [0x43, 0x41, 0x46, 0x45] = [0x63, 0x61, 0x66, 0x65]"
    "toLowerCase ucd [0x63, 0x61, 0x66, 0x65] = [0x63, 0x61, 0x66, 0x65]"
    by (simp_all add: toLowerCase_def ucd_def lower_unit_def)
  have marks:
    "remove_marks (normalize_form ucd NFKD (toLowerCase ucd [0x43, 0x61, 0x66, 0xE9])) =
       [0x63, 0x61, 0x66, 0x65]"
    "remove_marks (normalize_form ucd NFKD (toLowerCase ucd [0x63, 0x61, 0x66, 0x65])) =
       [0x63, 0x61, 0x66, 0x65]"
    by (simp_all add: toLowerCase_def normalize_form_def ucd_def lower_unit_def compat_unit_def
          decompose_unit_def remove_marks_def)
  have tab: "lower_case ucd [0x43, 0x61, 0x66, 0xE9] = [0x63, 0x61, 0x66, 0xE9]"
    "lower_case ucd [0x63, 0x61, 0x66, 0x65] = [0x63, 0x61, 0x66, 0x65]"
    "nfkd ucd [0x63, 0x61, 0x66, 0xE9] = [0x63, 0x61, 0x66, 0x65, 0x0301]"
    "nfkd ucd [0x63, 0x61, 0x66, 0x65] = [0x63, 0x61, 0x66, 0x65]"
    "nfc ucd [0x63, 0x61, 0x66, 0xE9] = [0x63, 0x61, 0x66, 0xE9]"
    "nfc ucd [0x63, 0x61, 0x66, 0x65] = [0x63, 0x61, 0x66, 0x65]"
    "letter ucd 0x63" "letter ucd 0x61" "letter ucd 0x66" "letter ucd 0x65"
    by (simp_all add: ucd_def lower_unit_def decompose_unit_def compat_unit_def)
  have n: "normalizeText_nfc ucd [0x63, 0x61, 0x66, 0x65] = [0x63, 0x61, 0x66, 0x65]"
    "normalizeText_nfkd ucd [0x63, 0x61, 0x66, 0x65] = [0x63, 0x61, 0x66, 0x65]"
    by (simp_all add: eval_defs)
  have self: "similarityScore_nfc ucd [0x63, 0x61, 0x66, 0x65] [0x63, 0x61, 0x66, 0x65] =
        \<lparr>score = 1, charSim = 1, wordSim = 1\<rparr>"
    "similarityScore_nfkd ucd [0x63, 0x61, 0x66, 0x65] [0x63, 0x61, 0x66, 0x65] =
        \<lparr>score = 1, charSim = 1, wordSim = 1\<rparr>"
    by (simp_all add: similarityScore_nfc_core similarityScore_nfkd_core n score_core_self)
  from similarityScore_case_and_accent
         [where U = ucd and s = "[0x43, 0x41, 0x46, 0x45]" and s' = "[0x63, 0x61, 0x66, 0x65]"
            and t = "[0x63, 0x61, 0x66, 0x65]" and a = "[0x43, 0x61, 0x66, 0xE9]"
            and a' = "[0x63, 0x61, 0x66, 0x65]"]
    low marks tab self
  show ?thesis by simp
qed

text \<open>
  \<^bold>\<open>C6\<close>. For every string whose normalisation is not empty, comparing it with itself gives
  \<open>score = 1\<close> and \<open>charSim = 1\<close>, in both versions.
\<close>

theorem similarityScore_self:
  "(normalizeText_nfc U x \<noteq> [] \<longrightarrow>
      score (similarityScore_nfc U x x) = 1 \<and> charSim (similarityScore_nfc U x x) = 1) \<and>
   (normalizeText_nfkd U x \<noteq> [] \<longrightarrow>
      score (similarityScore_nfkd U x x) = 1 \<and> charSim (similarityScore_nfkd U x x) = 1)"
  by (simp add: similarityScore_nfc_core similarityScore_nfkd_core score_core_self)

theorem similarityScore_self_witness:
  "normalizeText_nfc ucd [0x63, 0x61, 0x74] \<noteq> [] \<and> normalizeText_nfkd ucd [0x63,
      0x61, 0x74] \<noteq> [] \<and>
   score (similarityScore_nfc ucd [0x63, 0x61, 0x74] [0x63, 0x61, 0x74]) = 1 \<and>
   charSim (similarityScore_nfc ucd [0x63, 0x61, 0x74] [0x63, 0x61, 0x74]) = 1 \<and>
   score (similarityScore_nfkd ucd [0x63, 0x61, 0x74] [0x63, 0x61, 0x74]) = 1 \<and>
   charSim (similarityScore_nfkd ucd [0x63, 0x61, 0x74] [0x63, 0x61, 0x74]) = 1"
proof -
  have n: "normalizeText_nfc ucd [0x63, 0x61, 0x74] = [0x63, 0x61, 0x74]"
    "normalizeText_nfkd ucd [0x63, 0x61, 0x74] = [0x63, 0x61, 0x74]"
    by (simp_all add: eval_defs)
  from similarityScore_self [of ucd "[0x63, 0x61, 0x74]"] show ?thesis
    by (simp add: n)
qed

text \<open>
  \<^bold>\<open>C7\<close>. \<^verbatim>\<open>levenshtein\<close> satisfies the triangle inequality, is 0 on equal arguments and is
  symmetric.
\<close>

theorem levenshtein_metric:
  "levenshtein a c \<le> levenshtein a b + levenshtein b c \<and>
   levenshtein s s = 0 \<and>
   levenshtein a b = levenshtein b a"
proof (intro conjI)
  show "levenshtein a c \<le> levenshtein a b + levenshtein b c"
    unfolding levenshtein_ed by (rule ed_triangle)
  show "levenshtein s s = 0"
    unfolding levenshtein_ed by (rule ed_refl)
  show "levenshtein a b = levenshtein b a"
    unfolding levenshtein_ed by (rule ed_sym)
qed

theorem levenshtein_metric_witness:
  "levenshtein [0x63, 0x61, 0x74] [0x62, 0x61, 0x67] \<le>
     levenshtein [0x63, 0x61, 0x74] [0x62, 0x61, 0x74] + levenshtein [0x62, 0x61, 0x74] [0x62,
         0x61, 0x67] \<and>
   levenshtein [0x63, 0x61, 0x74] [0x63, 0x61, 0x74] = 0 \<and>
   levenshtein [0x63, 0x61, 0x74] [0x62, 0x61, 0x74] = levenshtein [0x62, 0x61, 0x74] [0x63,
       0x61, 0x74]"
  using levenshtein_metric [of "[0x63, 0x61, 0x74]" "[0x62, 0x61, 0x67]" "[0x62, 0x61, 0x74]"
      "[0x63, 0x61, 0x74]"]
  by blast

text \<open>
  \<^bold>\<open>C8\<close>. As stated (normalising twice is normalising once) the claim fails in both
  versions. NFKD version: U+2122 is not changed by \<^verbatim>\<open>toLowerCase\<close>, decomposes to the capitals
  "TM", and a second pass lower-cases them. NFC version: in "a" U+002E U+0301 the mark cannot
  combine with the full stop; once the full stop is removed, a second pass composes U+0061
  U+0301 to U+00E1.
\<close>

theorem normalizeText_idempotent_counterexample:
  "normalizeText_nfkd ucd [0x2122] = [0x54, 0x4D] \<and>
   normalizeText_nfkd ucd (normalizeText_nfkd ucd [0x2122]) = [0x74, 0x6D] \<and>
   normalizeText_nfkd ucd (normalizeText_nfkd ucd [0x2122]) \<noteq> normalizeText_nfkd ucd
       [0x2122] \<and>
   normalizeText_nfc ucd [0x61, 0x2E, 0x0301] = [0x61, 0x0301] \<and>
   normalizeText_nfc ucd (normalizeText_nfc ucd [0x61, 0x2E, 0x0301]) = [0xE1] \<and>
   normalizeText_nfc ucd (normalizeText_nfc ucd [0x61, 0x2E, 0x0301]) \<noteq>
     normalizeText_nfc ucd [0x61, 0x2E, 0x0301]"
proof -
  have once: "normalizeText_nfkd ucd [0x2122] = [0x54, 0x4D]"
    "normalizeText_nfc ucd [0x61, 0x2E, 0x0301] = [0x61, 0x0301]"
    by (simp_all add: eval_defs)
  have twice: "normalizeText_nfkd ucd [0x54, 0x4D] = [0x74, 0x6D]"
    "normalizeText_nfc ucd [0x61, 0x0301] = [0xE1]"
    by (simp_all add: eval_defs)
  show ?thesis
    by (simp add: once twice)
qed

text \<open>
  \<^bold>\<open>C8\<close>, amended. \<^verbatim>\<open>normalizeText\<close> of the empty string is the empty string; and normalising
  the result of \<^verbatim>\<open>normalizeText\<close> again returns it unchanged whenever \<^verbatim>\<open>toLowerCase\<close> and
  \<^verbatim>\<open>normalize\<close> leave that result unchanged. The removal of characters, the collapsing of
  white space and the trimming do not change their own result.
\<close>

theorem normalizeText_idempotent_when_stable:
  "normalizeText_nfc U [] = [] \<and> normalizeText_nfkd U [] = [] \<and>
   (toLowerCase U (normalizeText_nfc U s) = normalizeText_nfc U s \<and>
    normalize_form U NFC (normalizeText_nfc U s) = normalizeText_nfc U s \<longrightarrow>
      normalizeText_nfc U (normalizeText_nfc U s) = normalizeText_nfc U s) \<and>
   (toLowerCase U (normalizeText_nfkd U s) = normalizeText_nfkd U s \<and>
    normalize_form U NFKD (normalizeText_nfkd U s) = normalizeText_nfkd U s \<longrightarrow>
      normalizeText_nfkd U (normalizeText_nfkd U s) = normalizeText_nfkd U s)"
  using normalizeText_nfc_fixed [of U s] normalizeText_nfkd_fixed [of U s]
  by (simp add: normalizeText_nfc_empty normalizeText_nfkd_empty)

theorem normalizeText_idempotent_when_stable_witness:
  "toLowerCase ucd (normalizeText_nfc ucd [0x20, 0x48, 0x69, 0x2C, 0x20, 0x09, 0x79, 0x6F, 0x75,
      0x21]) =
     normalizeText_nfc ucd [0x20, 0x48, 0x69, 0x2C, 0x20, 0x09, 0x79, 0x6F, 0x75, 0x21] \<and>
   normalize_form ucd NFC (normalizeText_nfc ucd [0x20, 0x48, 0x69, 0x2C, 0x20, 0x09, 0x79, 0x6F,
       0x75, 0x21]) =
     normalizeText_nfc ucd [0x20, 0x48, 0x69, 0x2C, 0x20, 0x09, 0x79, 0x6F, 0x75, 0x21] \<and>
   toLowerCase ucd (normalizeText_nfkd ucd [0x20, 0x48, 0x69, 0x2C, 0x20, 0x09, 0x79, 0x6F, 0x75,
       0x21]) =
     normalizeText_nfkd ucd [0x20, 0x48, 0x69, 0x2C, 0x20, 0x09, 0x79, 0x6F, 0x75, 0x21] \<and>
   normalize_form ucd NFKD (normalizeText_nfkd ucd [0x20, 0x48, 0x69, 0x2C, 0x20, 0x09, 0x79,
       0x6F, 0x75, 0x21]) =
     normalizeText_nfkd ucd [0x20, 0x48, 0x69, 0x2C, 0x20, 0x09, 0x79, 0x6F, 0x75, 0x21] \<and>
   normalizeText_nfc ucd (normalizeText_nfc ucd [0x20, 0x48, 0x69, 0x2C, 0x20, 0x09, 0x79, 0x6F,
       0x75, 0x21]) =
     [0x68, 0x69, 0x20, 0x79, 0x6F, 0x75] \<and>
   normalizeText_nfkd ucd (normalizeText_nfkd ucd [0x20, 0x48, 0x69, 0x2C, 0x20, 0x09, 0x79,
       0x6F, 0x75, 0x21]) =
     [0x68, 0x69, 0x20, 0x79, 0x6F, 0x75]"
proof -
  have n: "normalizeText_nfc ucd [0x20, 0x48, 0x69, 0x2C, 0x20, 0x09, 0x79, 0x6F, 0x75, 0x21] =
      [0x68, 0x69, 0x20, 0x79, 0x6F, 0x75]"
    "normalizeText_nfkd ucd [0x20, 0x48, 0x69, 0x2C, 0x20, 0x09, 0x79, 0x6F, 0x75, 0x21] = [0x68,
        0x69, 0x20, 0x79, 0x6F, 0x75]"
    by (simp_all add: eval_defs)
  have st: "toLowerCase ucd [0x68, 0x69, 0x20, 0x79, 0x6F, 0x75] = [0x68, 0x69, 0x20, 0x79, 0x6F,
      0x75]"
    "normalize_form ucd NFC [0x68, 0x69, 0x20, 0x79, 0x6F, 0x75] = [0x68, 0x69, 0x20, 0x79, 0x6F,
        0x75]"
    "normalize_form ucd NFKD [0x68, 0x69, 0x20, 0x79, 0x6F, 0x75] = [0x68, 0x69, 0x20, 0x79,
        0x6F, 0x75]"
    by (simp_all add: eval_defs)
  from normalizeText_idempotent_when_stable [of ucd "[0x20, 0x48, 0x69, 0x2C, 0x20, 0x09, 0x79,
      0x6F, 0x75, 0x21]"]
  show ?thesis
    by (simp add: n st)
qed

text \<open>
  \<^bold>\<open>C9\<close>. In every state the component reaches, the number of recorded attempts is the
  length of \<^verbatim>\<open>scores\<close> and is at most 6. Once it is 6, the only button that can be clicked is
  the one that advances to another twister, no result can arrive, and every other event
  leaves the attempts as they are.
\<close>

theorem attempts_never_exceed_cap:
  "(run U es (init_app avail) = Some s \<longrightarrow>
      attempt s \<le> 6 \<and> length (scores s) = attempt s \<and>
      (attempt s = 6 \<longrightarrow>
         (\<forall>e. enabled s e \<longrightarrow>
            e = ClickNew \<or>
            (background e \<and> attempt (handle U e s) = 6 \<and> scores (handle U e s) = scores
                s)))) \<and>
   (run_alt sim es' (init_app_alt avail') = Some s' \<longrightarrow>
      attempt s' \<le> 6 \<and> length (scores s') = attempt s' \<and>
      (attempt s' = 6 \<longrightarrow>
         (\<forall>e. enabled_alt s' e \<longrightarrow>
            e = ClickNew \<or>
            (background e \<and> attempt (handle_alt sim e s') = 6 \<and>
             scores (handle_alt sim e s') = scores s'))))"
proof (intro conjI impI allI)
  assume r: "run U es (init_app avail) = Some s"
  have c: "capped s" by (rule capped_run [OF capped_init(1) r])
  then show "attempt s \<le> 6" "length (scores s) = attempt s"
    by (simp_all add: capped_def)
  fix e assume "attempt s = 6" "enabled s e"
  with c show "e = ClickNew \<or>
      (background e \<and> attempt (handle U e s) = 6 \<and> scores (handle U e s) = scores s)"
    by (rule at_cap)
next
  assume r: "run_alt sim es' (init_app_alt avail') = Some s'"
  have c: "capped_alt s'" by (rule capped_run_alt [OF capped_init(2) r])
  then show "attempt s' \<le> 6" "length (scores s') = attempt s'"
    by (simp_all add: capped_def capped_alt_def)
  fix e assume "attempt s' = 6" "enabled_alt s' e"
  with c show "e = ClickNew \<or>
      (background e \<and> attempt (handle_alt sim e s') = 6 \<and> scores (handle_alt sim e s')
          = scores s')"
    by (rule at_cap_alt)
qed

theorem attempts_never_exceed_cap_witness:
  "run ucd six_attempts (init_app True) \<noteq> None \<and>
   attempt (the (run ucd six_attempts (init_app True))) = 6 \<and>
   length (scores (the (run ucd six_attempts (init_app True)))) = 6 \<and>
   enabled (the (run ucd six_attempts (init_app True))) Abort \<and>
   \<not> enabled (the (run ucd six_attempts (init_app True))) (Result [0x68, 0x69]) \<and>
   run_alt (similarityScore_nfkd ucd) six_attempts_alt (init_app_alt True) \<noteq> None \<and>
   attempt (the (run_alt (similarityScore_nfkd ucd) six_attempts_alt (init_app_alt True))) = 6
       \<and>
   length (scores (the (run_alt (similarityScore_nfkd ucd) six_attempts_alt (init_app_alt
       True)))) = 6 \<and>
   enabled_alt (the (run_alt (similarityScore_nfkd ucd) six_attempts_alt (init_app_alt True)))
       Abort \<and>
   \<not> enabled_alt (the (run_alt (similarityScore_nfkd ucd) six_attempts_alt (init_app_alt
       True)))
       (Result [0x68, 0x69])"
proof -
  let ?s = "the (run ucd six_attempts (init_app True))"
  let ?t = "the (run_alt (similarityScore_nfkd ucd) six_attempts_alt (init_app_alt True))"
  have r: "run ucd six_attempts (init_app True) = Some ?s" and a: "attempt ?s = 6"
    using run_six_attempts by auto
  have r': "run_alt (similarityScore_nfkd ucd) six_attempts_alt (init_app_alt True) = Some ?t"
    and a': "attempt ?t = 6"
    using run_six_attempts_alt by auto
  have sup: "enabled ?s Abort" "enabled_alt ?t Abort"
    by (simp_all add: six_attempts_def six_attempts_alt_def init_app_def init_app_alt_def
          handler_defs Let_def)
  from attempts_never_exceed_cap
         [of ucd six_attempts True ?s "similarityScore_nfkd ucd" six_attempts_alt True ?t]
    r r' a a' sup
  show ?thesis by fastforce
qed

text \<open>
  \<^bold>\<open>C10\<close>. When both normalised strings are not empty, \<^verbatim>\<open>maxLen\<close> is positive, and
  \<^verbatim>\<open>B.split(" ")\<close> has at least one element, so that the branch \<open>wordSim = 0\<close> of lines 57
  and 304 is never taken.
\<close>

theorem similarityScore_divisors_positive:
  "(normalizeText_nfc U target \<noteq> [] \<and> normalizeText_nfc U said \<noteq> []
      \<longrightarrow>
      0 < max (length (normalizeText_nfc U target)) (length (normalizeText_nfc U said)) \<and>
      0 < length (split_space (normalizeText_nfc U said))) \<and>
   (normalizeText_nfkd U target \<noteq> [] \<and> normalizeText_nfkd U said \<noteq> []
       \<longrightarrow>
      0 < max (length (normalizeText_nfkd U target)) (length (normalizeText_nfkd U said)) \<and>
      0 < length (split_space (normalizeText_nfkd U said)))"
  by (auto simp: split_space_nonempty less_max_iff_disj)

theorem similarityScore_divisors_positive_witness:
  "normalizeText_nfc ucd [0x63, 0x61, 0x74] \<noteq> [] \<and> normalizeText_nfc ucd [0x62, 0x61,
      0x74] \<noteq> [] \<and>
   normalizeText_nfkd ucd [0x63, 0x61, 0x74] \<noteq> [] \<and> normalizeText_nfkd ucd [0x62,
       0x61, 0x74] \<noteq> [] \<and>
   0 < max (length (normalizeText_nfc ucd [0x63, 0x61, 0x74])) (length (normalizeText_nfc ucd
       [0x62, 0x61, 0x74])) \<and>
   0 < length (split_space (normalizeText_nfc ucd [0x62, 0x61, 0x74])) \<and>
   0 < max (length (normalizeText_nfkd ucd [0x63, 0x61, 0x74])) (length (normalizeText_nfkd ucd
       [0x62, 0x61, 0x74])) \<and>
   0 < length (split_space (normalizeText_nfkd ucd [0x62, 0x61, 0x74]))"
proof -
  have n: "normalizeText_nfc ucd [0x63, 0x61, 0x74] \<noteq> []" "normalizeText_nfc ucd [0x62,
      0x61, 0x74] \<noteq> []"
    "normalizeText_nfkd ucd [0x63, 0x61, 0x74] \<noteq> []" "normalizeText_nfkd ucd [0x62, 0x61,
        0x74] \<noteq> []"
    by (simp_all add: eval_defs)
  with similarityScore_divisors_positive [of ucd "[0x63, 0x61, 0x74]" "[0x62, 0x61, 0x74]"]
  show ?thesis by blast
qed

end
